theory Spec2Isabelle
  imports Main "HOL-Library.Word"
begin

section \<open>Strings\<close>

text \<open>
  A JavaScript string is a sequence of UTF-16 code units. The regular expressions of
  the source have no \<^verbatim>\<open>u\<close> flag, so they work on code units, one at a time.
\<close>

type_synonym jschar = "16 word"
type_synonym jsstring = "jschar list"

definition lit :: "string \<Rightarrow> jsstring" where
  "lit cs = map (\<lambda>c. of_nat (of_char c)) cs"

definition is_digit :: "jschar \<Rightarrow> bool" where
  "is_digit c = (48 \<le> c \<and> c \<le> 57)"

definition is_upper :: "jschar \<Rightarrow> bool" where
  "is_upper c = (65 \<le> c \<and> c \<le> 90)"

definition is_lower :: "jschar \<Rightarrow> bool" where
  "is_lower c = (97 \<le> c \<and> c \<le> 122)"

text \<open>
  The class \<^verbatim>\<open>[^a-z0-9]\<close> under the flags \<^verbatim>\<open>gi\<close>: without the \<^verbatim>\<open>u\<close> flag, case-insensitive
  matching never folds a code unit from 128 on to an ASCII one, so the units the class
  does not match are exactly the ASCII letters of both cases and the ASCII digits.
\<close>

definition is_alnum :: "jschar \<Rightarrow> bool" where
  "is_alnum c = (is_digit c \<or> is_upper c \<or> is_lower c)"

text \<open>\<^verbatim>\<open>s.replace(/[...]/g, rep)\<close> for a class of single code units.\<close>

definition replace_all :: "(jschar \<Rightarrow> bool) \<Rightarrow> jsstring \<Rightarrow> jsstring \<Rightarrow> jsstring" where
  "replace_all matches rep s = concat (map (\<lambda>c. if matches c then rep else [c]) s)"

text \<open>
  \<^verbatim>\<open>toLowerCase\<close> on ASCII: the letters A to Z move to a to z, every other unit below 128
  stays. The Unicode case tables are not modelled: units from 128 on are left as they
  are. The source lower-cases only strings that went through the replace above, where no
  such unit is left.
\<close>

definition lower_unit :: "jschar \<Rightarrow> jschar" where
  "lower_unit c = (if is_upper c then c + 32 else c)"

definition toLowerCase :: "jsstring \<Rightarrow> jsstring" where
  "toLowerCase s = map lower_unit s"

text \<open>\<^verbatim>\<open>s.split(sep)\<close> for a separator of one code unit: never an empty array.\<close>

fun js_split :: "jschar \<Rightarrow> jsstring \<Rightarrow> jsstring list" where
  "js_split sep [] = [[]]"
| "js_split sep (c # cs) =
     (if c = sep then [] # js_split sep cs
      else (case js_split sep cs of
              [] \<Rightarrow> [[c]]
            | l # ls \<Rightarrow> (c # l) # ls))"

text \<open>
  \<^verbatim>\<open>trim\<close> removes WhiteSpace and LineTerminator code points from both ends: TAB, LF, VT,
  FF, CR, SP, NBSP, U+1680, U+2000 to U+200A, U+2028, U+2029, U+202F, U+205F, U+3000
  and U+FEFF.
\<close>

definition is_ws :: "jschar \<Rightarrow> bool" where
  "is_ws c = ((9 \<le> c \<and> c \<le> 13) \<or> c = 32 \<or> c = 160 \<or> c = 5760
     \<or> (8192 \<le> c \<and> c \<le> 8202) \<or> c = 8232 \<or> c = 8233 \<or> c = 8239 \<or> c = 8287
     \<or> c = 12288 \<or> c = 65279)"

definition trim :: "jsstring \<Rightarrow> jsstring" where
  "trim s = rev (dropWhile is_ws (rev (dropWhile is_ws s)))"

section \<open>Dates and file names\<close>

text \<open>
  The fields of the current time in UTC, as \<^verbatim>\<open>toISOString\<close> prints them. The year is a
  natural number: the current date is not before year 0.
\<close>

record date =
  year :: nat
  month :: nat
  day :: nat
  hours :: nat
  minutes :: nat
  seconds :: nat
  millis :: nat

definition digit :: "nat \<Rightarrow> jschar" where
  "digit n = of_nat (48 + n mod 10)"

text \<open>The last \<open>k\<close> decimal digits of \<open>n\<close>, zero-padded.\<close>

fun pad :: "nat \<Rightarrow> nat \<Rightarrow> jsstring" where
  "pad 0 n = []"
| "pad (Suc k) n = pad k (n div 10) @ [digit n]"

text \<open>
  \<^verbatim>\<open>Date.prototype.toISOString\<close>: \<^verbatim>\<open>YYYY-MM-DDTHH:mm:ss.sssZ\<close>, and the expanded form
  \<^verbatim>\<open>+YYYYYY-...\<close> for a year after 9999.
\<close>

definition toISOString :: "date \<Rightarrow> jsstring" where
  "toISOString d =
     (if year d \<le> 9999 then pad 4 (year d) else lit ''+'' @ pad 6 (year d))
     @ lit ''-'' @ pad 2 (month d) @ lit ''-'' @ pad 2 (day d)
     @ lit ''T'' @ pad 2 (hours d) @ lit '':'' @ pad 2 (minutes d)
     @ lit '':'' @ pad 2 (seconds d) @ lit ''.'' @ pad 3 (millis d) @ lit ''Z''"

text \<open>Line 61 of wikisniffer.js (and again line 79).\<close>

definition sanitizedTerm :: "jsstring \<Rightarrow> jsstring" where
  "sanitizedTerm searchTerm =
     toLowerCase (replace_all (\<lambda>c. \<not> is_alnum c) (lit ''_'') searchTerm)"

text \<open>
  Line 62: \<^verbatim>\<open>new Date().toISOString().replace(/[:.]/g, '-').split('T')[0]\<close>. Element 0 of
  an empty array would be \<^verbatim>\<open>undefined\<close>.
\<close>

definition timestamp :: "date \<Rightarrow> jsstring" where
  "timestamp now =
     (case js_split 84 (replace_all (\<lambda>c. c = 58 \<or> c = 46) (lit ''-'') (toISOString now)) of
        [] \<Rightarrow> lit ''undefined''
      | x # _ \<Rightarrow> x)"

text \<open>Line 63.\<close>

definition filename :: "jsstring \<Rightarrow> date \<Rightarrow> jsstring" where
  "filename searchTerm now = sanitizedTerm searchTerm @ lit ''_'' @ timestamp now @ lit ''.png''"

text \<open>Line 79.\<close>

definition errorFilename :: "jsstring \<Rightarrow> jsstring" where
  "errorFilename searchTerm = lit ''error_'' @ sanitizedTerm searchTerm @ lit ''.png''"

text \<open>
  \<^verbatim>\<open>path.join(dir, name)\<close> on POSIX, for the arguments the source gives it: \<open>dir\<close> is
  \<^verbatim>\<open>OUT_DIR\<close>, itself the result of a join (normalised, not ending in a separator), and
  \<open>name\<close> is one segment with no separator in it, so nothing is left to normalise.
\<close>

definition path_join :: "jsstring \<Rightarrow> jsstring \<Rightarrow> jsstring" where
  "path_join dir name = dir @ lit ''/'' @ name"

text \<open>\<^verbatim>\<open>path.basename\<close> of a path that does not end in a separator.\<close>

definition basename :: "jsstring \<Rightarrow> jsstring" where
  "basename p = rev (takeWhile (\<lambda>c. c \<noteq> 47) (rev p))"

text \<open>The character sets the claims speak of.\<close>

definition lower_alnum_us :: "jschar \<Rightarrow> bool" where
  "lower_alnum_us c = (is_lower c \<or> is_digit c \<or> c = 95)"

definition digit_or_hyphen :: "jschar \<Rightarrow> bool" where
  "digit_or_hyphen c = (is_digit c \<or> c = 45)"

section \<open>The world outside the program\<close>

text \<open>
  What an awaited library call can throw. \<open>TypeError\<close> is what a property access on
  \<^verbatim>\<open>null\<close> throws; \<open>Failure n\<close> is an \<^verbatim>\<open>Error\<close> rejected by Playwright or by
  \<^verbatim>\<open>node:fs\<close>, with \<open>n\<close> telling one from another.
\<close>

datatype error = TypeError | Failure nat

definition ENOENT :: error where "ENOENT = Failure 2"
definition EEXIST :: error where "EEXIST = Failure 17"
definition EISDIR :: error where "EISDIR = Failure 21"

text \<open>The calls the two scripts make on Playwright and on \<^verbatim>\<open>node:fs/promises\<close>.\<close>

datatype call =
    Launch bool nat
  | NewContext
  | NewPage
  | Goto jsstring
  | Fill jsstring jsstring
  | Press jsstring
  | WaitForSelector jsstring "nat option"
  | Click jsstring
  | WaitForLoadState jsstring
  | Wheel int int
  | WaitForTimeout nat
  | Screenshot jsstring bool
  | Close
  | Access jsstring
  | Mkdir jsstring
  | ReadFile jsstring

text \<open>One constructor for each console message of the source, with what it interpolates.\<close>

datatype message =
    Launching
  | CreatedDir jsstring
  | Searching jsstring
  | Loaded jsstring
  | ScrollingDown
  | ScreenshotSaved jsstring
  | ErrorProcessing jsstring error
  | ErrorScreenshotSaved jsstring
  | CouldNotTakeErrorScreenshot
  | ReadingTerms jsstring
  | FoundTerms nat
  | Processing nat nat jsstring
  | WaitingBeforeNext
  | SummaryHeader
  | SummaryRule
  | Successful nat nat
  | Failed nat nat
  | ScreenshotsSavedHeader
  | FailedTermsHeader
  | Bullet jsstring
  | AllProcessed
  | ErrorReadingTerms error
  | ClosingBrowser
  | Usage
  | ProcessingSingle
  | FatalError error
  | Uncaught error
  | InfoSaved

datatype stream = Out | Err

text \<open>What the program did, in order: console lines, and library calls with their outcome.\<close>

datatype event =
    Console stream message
  | Called call "error option"

datatype entry = Dir | File "nat list"

text \<open>
  The environment answers from the history so far, so any behaviour of the browser, the
  network and the clock is one value of this record: \<open>respond\<close> says whether a call is
  rejected and with what, \<open>page_url\<close> is what \<^verbatim>\<open>page.url()\<close> returns, \<open>clock\<close> what
  \<^verbatim>\<open>new Date()\<close> returns, \<open>image\<close> the bytes a screenshot writes, \<open>utf8\<close> the decoder of
  \<^verbatim>\<open>readFile(_, 'utf8')\<close>, and \<open>out_dir\<close> the module constant \<^verbatim>\<open>OUT_DIR\<close>
  (\<^verbatim>\<open>path.join(process.cwd(), 'snapshots')\<close>, computed when the module loads).
\<close>

record env =
  respond :: "event list \<Rightarrow> call \<Rightarrow> error option"
  page_url :: "event list \<Rightarrow> jsstring"
  clock :: "event list \<Rightarrow> date"
  image :: "event list \<Rightarrow> nat list"
  utf8 :: "nat list \<Rightarrow> jsstring"
  out_dir :: jsstring

text \<open>
  The state: the history, the file system, and the three fields of the \<^verbatim>\<open>WikiSniffer\<close>
  object (\<open>True\<close> when the field is not \<^verbatim>\<open>null\<close>). The field \<^verbatim>\<open>context\<close> of the source
  is \<open>browserContext\<close> here, \<open>context\<close> being a keyword.
  The file system maps a path, as the program writes it, to what is there: paths are
  not normalised, and a relative path is not resolved against the working directory, so
  it is never the same key as \<^verbatim>\<open>OUT_DIR\<close>.
\<close>

record state =
  trace :: "event list"
  fs :: "jsstring \<Rightarrow> entry option"
  browser :: bool
  browserContext :: bool
  page :: bool

section \<open>Statements\<close>

text \<open>
  An async function body is a state transformer that returns normally (\<open>Inr\<close>) or
  throws (\<open>Inl\<close>).
\<close>

type_synonym 'a prog = "state \<Rightarrow> (error + 'a) \<times> state"

definition ret :: "'a \<Rightarrow> 'a prog" where
  "ret x = (\<lambda>s. (Inr x, s))"

definition andThen :: "'a prog \<Rightarrow> ('a \<Rightarrow> 'b prog) \<Rightarrow> 'b prog" where
  "andThen m f = (\<lambda>s. case m s of (Inl e, s') \<Rightarrow> (Inl e, s') | (Inr x, s') \<Rightarrow> f x s')"

text \<open>\<^verbatim>\<open>try { m } catch (e) { h e }\<close>\<close>

definition tryCatch :: "'a prog \<Rightarrow> (error \<Rightarrow> 'a prog) \<Rightarrow> 'a prog" where
  "tryCatch m h = (\<lambda>s. case m s of (Inl e, s') \<Rightarrow> h e s' | (Inr x, s') \<Rightarrow> (Inr x, s'))"

text \<open>
  \<^verbatim>\<open>try { m } finally { fin }\<close>: \<open>fin\<close> runs whatever \<open>m\<close> did; if \<open>fin\<close> throws, that is the
  outcome, otherwise the outcome of \<open>m\<close> stands.
\<close>

definition tryFinally :: "'a prog \<Rightarrow> unit prog \<Rightarrow> 'a prog" where
  "tryFinally m fin =
     (\<lambda>s. case m s of (r, s') \<Rightarrow>
        (case fin s' of (Inl e, s'') \<Rightarrow> (Inl e, s'') | (Inr _, s'') \<Rightarrow> (r, s'')))"

text \<open>Statements one after the other; the first that throws ends the block.\<close>

fun block :: "unit prog list \<Rightarrow> unit prog" where
  "block [] = ret ()"
| "block (m # ms) = andThen m (\<lambda>_. block ms)"

definition emit :: "event \<Rightarrow> state \<Rightarrow> state" where
  "emit e s = s\<lparr>trace := trace s @ [e]\<rparr>"

text \<open>\<^verbatim>\<open>console.log\<close> (\<open>Out\<close>) and \<^verbatim>\<open>console.error\<close> (\<open>Err\<close>).\<close>

definition log :: "stream \<Rightarrow> message \<Rightarrow> unit prog" where
  "log ch m = (\<lambda>s. (Inr (), emit (Console ch m) s))"

definition failed :: "call \<Rightarrow> error \<Rightarrow> 'a prog" where
  "failed c e = (\<lambda>s. (Inl e, emit (Called c (Some e)) s))"

definition done_call :: "call \<Rightarrow> 'a \<Rightarrow> 'a prog" where
  "done_call c x = (\<lambda>s. (Inr x, emit (Called c None) s))"

text \<open>An awaited call whose outcome is the environment's.\<close>

definition external :: "env \<Rightarrow> call \<Rightarrow> unit prog" where
  "external env c =
     (\<lambda>s. case respond env (trace s) c of
             Some e \<Rightarrow> failed c e s
           | None \<Rightarrow> done_call c () s)"

text \<open>
  A screenshot that succeeds leaves a file at the path. Onto a directory it cannot
  write.
\<close>

definition take_screenshot :: "env \<Rightarrow> jsstring \<Rightarrow> bool \<Rightarrow> unit prog" where
  "take_screenshot env p fullPage =
     (\<lambda>s. case respond env (trace s) (Screenshot p fullPage) of
             Some e \<Rightarrow> failed (Screenshot p fullPage) e s
           | None \<Rightarrow>
               (if fs s p = Some Dir then failed (Screenshot p fullPage) EISDIR s
                else done_call (Screenshot p fullPage) ()
                       (s\<lparr>fs := (fs s)(p \<mapsto> File (image env (trace s)))\<rparr>)))"

text \<open>A method call on \<^verbatim>\<open>this.page\<close>: a \<open>TypeError\<close> while the field is \<^verbatim>\<open>null\<close>.\<close>

definition on_page :: "'a prog \<Rightarrow> 'a prog" where
  "on_page m = (\<lambda>s. if page s then m s else (Inl TypeError, s))"

definition page_call :: "env \<Rightarrow> call \<Rightarrow> unit prog" where
  "page_call env c = on_page (external env c)"

definition screenshot :: "env \<Rightarrow> jsstring \<Rightarrow> bool \<Rightarrow> unit prog" where
  "screenshot env p fullPage = on_page (take_screenshot env p fullPage)"

definition current_url :: "env \<Rightarrow> jsstring prog" where
  "current_url env = on_page (\<lambda>s. (Inr (page_url env (trace s)), s))"

definition new_Date :: "env \<Rightarrow> date prog" where
  "new_Date env = (\<lambda>s. (Inr (clock env (trace s)), s))"

text \<open>
  \<^verbatim>\<open>access(p)\<close> with the default mode tests that the path is visible, whatever is there.
\<close>

definition access :: "jsstring \<Rightarrow> unit prog" where
  "access p =
     (\<lambda>s. case fs s p of
             None \<Rightarrow> failed (Access p) ENOENT s
           | Some _ \<Rightarrow> done_call (Access p) () s)"

text \<open>
  \<^verbatim>\<open>mkdir(p, { recursive: true })\<close>: no error on a directory that is there already,
  \<open>EEXIST\<close> on a file, and the environment may refuse (permissions, a full disk).
\<close>

definition mkdir :: "env \<Rightarrow> jsstring \<Rightarrow> unit prog" where
  "mkdir env p =
     (\<lambda>s. case respond env (trace s) (Mkdir p) of
             Some e \<Rightarrow> failed (Mkdir p) e s
           | None \<Rightarrow>
               (case fs s p of
                  Some (File _) \<Rightarrow> failed (Mkdir p) EEXIST s
                | Some Dir \<Rightarrow> done_call (Mkdir p) () s
                | None \<Rightarrow> done_call (Mkdir p) () (s\<lparr>fs := (fs s)(p \<mapsto> Dir)\<rparr>)))"

definition readFile :: "env \<Rightarrow> jsstring \<Rightarrow> jsstring prog" where
  "readFile env p =
     (\<lambda>s. case respond env (trace s) (ReadFile p) of
             Some e \<Rightarrow> failed (ReadFile p) e s
           | None \<Rightarrow>
               (case fs s p of
                  Some (File bytes) \<Rightarrow> done_call (ReadFile p) (utf8 env bytes) s
                | Some Dir \<Rightarrow> failed (ReadFile p) EISDIR s
                | None \<Rightarrow> failed (ReadFile p) ENOENT s))"

section \<open>wikisniffer.js\<close>

definition set_browser :: "bool \<Rightarrow> unit prog" where
  "set_browser b = (\<lambda>s. (Inr (), s\<lparr>browser := b\<rparr>))"

definition set_context :: "bool \<Rightarrow> unit prog" where
  "set_context b = (\<lambda>s. (Inr (), s\<lparr>browserContext := b\<rparr>))"

definition set_page :: "bool \<Rightarrow> unit prog" where
  "set_page b = (\<lambda>s. (Inr (), s\<lparr>page := b\<rparr>))"

text \<open>The constructor, lines 8 to 12.\<close>

definition new_WikiSniffer :: "unit prog" where
  "new_WikiSniffer = block [set_browser False, set_context False, set_page False]"

text \<open>Lines 14 to 30.\<close>

definition initialize :: "env \<Rightarrow> unit prog" where
  "initialize env =
     block
      [log Out Launching,
       external env (Launch False 300),
       set_browser True,
       external env NewContext,
       set_context True,
       external env NewPage,
       set_page True,
       tryCatch (access (out_dir env))
         (\<lambda>_. block
            [mkdir env (out_dir env),
             log Out (CreatedDir (out_dir env))])]"

text \<open>Lines 32 to 91. The result is the path, or \<open>None\<close> for \<^verbatim>\<open>null\<close>.\<close>

definition searchAndCapture :: "env \<Rightarrow> jsstring \<Rightarrow> jsstring option prog" where
  "searchAndCapture env searchTerm =
     andThen (log Out (Searching searchTerm)) (\<lambda>_.
     tryCatch
       (andThen
          (block
            [page_call env (Goto (lit ''https://www.wikipedia.org'')),
             page_call env (Fill (lit ''input[name=search]'') searchTerm),
             page_call env (Press (lit ''Enter'')),
             page_call env (WaitForSelector (lit ''#mw-content-text a'') (Some 10000)),
             page_call env (Click (lit ''#mw-content-text a'')),
             page_call env (WaitForLoadState (lit ''networkidle''))]) (\<lambda>_.
        andThen (current_url env) (\<lambda>url.
        andThen
          (block
            [log Out (Loaded url),
             log Out ScrollingDown,
             page_call env (Wheel 0 1500),
             page_call env (WaitForTimeout 800),
             page_call env (Wheel 0 1500),
             page_call env (WaitForTimeout 800),
             page_call env (Wheel 0 1000),
             page_call env (WaitForTimeout 500)]) (\<lambda>_.
        andThen (new_Date env) (\<lambda>now.
        andThen
          (block
            [screenshot env (path_join (out_dir env) (filename searchTerm now)) True,
             log Out (ScreenshotSaved (filename searchTerm now))]) (\<lambda>_.
        ret (Some (path_join (out_dir env) (filename searchTerm now)))))))))
       (\<lambda>error.
          andThen
            (block
              [log Err (ErrorProcessing searchTerm error),
               tryCatch
                 (block
                   [screenshot env (path_join (out_dir env) (errorFilename searchTerm)) False,
                    log Out (ErrorScreenshotSaved (errorFilename searchTerm))])
                 (\<lambda>screenshotError. log Out CouldNotTakeErrorScreenshot)]) (\<lambda>_.
          ret None)))"

text \<open>
  One element of \<^verbatim>\<open>results\<close>, line 110. \<^verbatim>\<open>!!result\<close> is false for \<^verbatim>\<open>null\<close> and for the
  empty string.
\<close>

record capture =
  "term" :: jsstring
  success :: bool
  filepath :: "jsstring option"

definition truthy :: "jsstring option \<Rightarrow> bool" where
  "truthy r = (case r of None \<Rightarrow> False | Some p \<Rightarrow> p \<noteq> [])"

text \<open>The loop of lines 105 to 117, from index \<open>i\<close> on.\<close>

function process_loop :: "env \<Rightarrow> jsstring list \<Rightarrow> nat \<Rightarrow> capture list \<Rightarrow> capture list prog" where
  "process_loop env terms i results =
     (if i < length terms then
        andThen (log Out (Processing (i + 1) (length terms) (terms ! i))) (\<lambda>_.
        andThen (searchAndCapture env (terms ! i)) (\<lambda>result.
        andThen
          (if i < length terms - 1
           then block [log Out WaitingBeforeNext, page_call env (WaitForTimeout 2000)]
           else ret ()) (\<lambda>_.
        process_loop env terms (i + 1)
          (results @ [\<lparr>term = terms ! i, success = truthy result, filepath = result\<rparr>]))))
      else ret results)"
  by pat_completeness auto
termination
  by (relation "measure (\<lambda>(env, terms, i, results). length terms - i)") auto

declare process_loop.simps [simp del]

text \<open>
  Lines 120 to 140. \<^verbatim>\<open>path.basename\<close> throws a \<open>TypeError\<close> on \<^verbatim>\<open>null\<close>.
\<close>

definition print_saved :: "capture \<Rightarrow> unit prog" where
  "print_saved r =
     (case filepath r of
        None \<Rightarrow> (\<lambda>s. (Inl TypeError, s))
      | Some p \<Rightarrow> log Out (Bullet (basename p)))"

definition print_summary :: "capture list \<Rightarrow> unit prog" where
  "print_summary results =
     (let successful = length (filter success results) in
      block
       [log Out SummaryHeader,
        log Out SummaryRule,
        log Out (Successful successful (length results)),
        log Out (Failed (length results - successful) (length results)),
        (if successful > 0
         then block (log Out ScreenshotsSavedHeader # map print_saved (filter success results))
         else ret ()),
        (if length results - successful > 0
         then block (log Out FailedTermsHeader
                     # map (\<lambda>r. log Out (Bullet (term r))) (filter (\<lambda>r. \<not> success r) results))
         else ret ()),
        log Out AllProcessed])"

text \<open>Lines 96 to 99.\<close>

definition parse_terms :: "jsstring \<Rightarrow> jsstring list" where
  "parse_terms content = filter (\<lambda>t. length t > 0) (map trim (js_split 10 content))"

text \<open>Lines 93 to 145.\<close>

definition processTermsFromFile :: "env \<Rightarrow> jsstring \<Rightarrow> unit prog" where
  "processTermsFromFile env filePath =
     tryCatch
       (andThen (log Out (ReadingTerms filePath)) (\<lambda>_.
        andThen (readFile env filePath) (\<lambda>content.
        andThen (log Out (FoundTerms (length (parse_terms content)))) (\<lambda>_.
        andThen (process_loop env (parse_terms content) 0 []) (\<lambda>results.
        print_summary results)))))
       (\<lambda>error. log Err (ErrorReadingTerms error))"

text \<open>Lines 147 to 152.\<close>

definition close :: "env \<Rightarrow> unit prog" where
  "close env =
     (\<lambda>s. if browser s
           then block [log Out ClosingBrowser, external env Close] s
           else (Inr (), s))"

text \<open>Lines 156 to 207; \<open>argv\<close> is \<^verbatim>\<open>process.argv\<close>.\<close>

definition main :: "env \<Rightarrow> jsstring list \<Rightarrow> unit prog" where
  "main env argv =
     (let args = drop 2 argv in
      if length args = 0 then log Out Usage
      else
        andThen new_WikiSniffer (\<lambda>_.
        tryFinally
          (tryCatch
             (andThen (initialize env) (\<lambda>_.
              tryCatch
                (andThen (access (args ! 0)) (\<lambda>_.
                 processTermsFromFile env (args ! 0)))
                (\<lambda>_. andThen (log Out ProcessingSingle) (\<lambda>_.
                      andThen (searchAndCapture env (args ! 0)) (\<lambda>_. ret ())))))
             (\<lambda>error. log Err (FatalError error)))
          (close env)))"

text \<open>
  A run of the script from a file system, an empty history and no object yet. Line 216:
  a rejection of \<^verbatim>\<open>main()\<close> is handed to \<^verbatim>\<open>console.error\<close>, so the process ends with
  exit code 0 either way.
\<close>

definition start :: "(jsstring \<Rightarrow> entry option) \<Rightarrow> state" where
  "start files = \<lparr>trace = [], fs = files, browser = False, browserContext = False, page = False\<rparr>"

definition run :: "env \<Rightarrow> jsstring list \<Rightarrow> (jsstring \<Rightarrow> entry option) \<Rightarrow> nat \<times> state" where
  "run env argv files =
     (case main env argv (start files) of
        (Inr _, s) \<Rightarrow> (0, s)
      | (Inl e, s) \<Rightarrow> (0, emit (Console Err (Uncaught e)) s))"

section \<open>The second script (unnamed/part\_000)\<close>

text \<open>
  Its \<^verbatim>\<open>main\<close>, lines 6 to 33: the browser, the context and the page are local constants,
  nothing is caught, and \<^verbatim>\<open>waitForSelector\<close> has no timeout option.
\<close>

definition main_part_000 :: "env \<Rightarrow> unit prog" where
  "main_part_000 env =
     block
      [external env (Launch False 500),
       external env NewContext,
       external env NewPage,
       external env (Goto (lit ''https://www.wikipedia.org'')),
       external env (Fill (lit ''input[name=search]'') (lit ''Boxing'')),
       external env (Press (lit ''Enter'')),
       external env (WaitForSelector (lit ''#mw-content-text a'') None),
       external env (Click (lit ''#mw-content-text a'')),
       external env (Wheel 0 2000),
       external env (WaitForTimeout 1000),
       external env (Wheel 0 2000),
       external env (WaitForTimeout 1000),
       take_screenshot env (path_join (out_dir env) (lit ''info.png'')) True,
       log Out InfoSaved,
       external env Close]"


section \<open>Reading a history\<close>

text \<open>The calls of a history, in order, with or without their outcome.\<close>

fun calls_of :: "event list \<Rightarrow> call list" where
  "calls_of [] = []"
| "calls_of (Console ch m # es) = calls_of es"
| "calls_of (Called c r # es) = c # calls_of es"

text \<open>The terms searched for: one \<open>Searching\<close> line opens each capture (line 33).\<close>

fun searched :: "event list \<Rightarrow> jsstring list" where
  "searched [] = []"
| "searched (Console ch (Searching t) # es) = t # searched es"
| "searched (e # es) = searched es"

fun is_launch :: "call \<Rightarrow> bool" where
  "is_launch (Launch h m) = True"
| "is_launch c = False"

text \<open>A browser was launched: a \<open>Launch\<close> call that was not rejected.\<close>

fun launched :: "event list \<Rightarrow> bool" where
  "launched [] = False"
| "launched (Called c None # es) = (is_launch c \<or> launched es)"
| "launched (e # es) = launched es"


text \<open>The vertical amounts of the scroll gestures that were carried out.\<close>

fun scrolls :: "event list \<Rightarrow> int list" where
  "scrolls [] = []"
| "scrolls (Called (Wheel dx dy) None # es) = dy # scrolls es"
| "scrolls (e # es) = scrolls es"

section \<open>Vocabulary of the theorems\<close>

subsection \<open>One capture\<close>

text \<open>
  What a capture that goes well adds to the history up to the screenshot, and what the
  environment then tells it: the address of the page, the date, the picture.
\<close>

definition search_events :: "jsstring \<Rightarrow> event list" where
  "search_events searchTerm =
     [Console Out (Searching searchTerm),
      Called (Goto (lit ''https://www.wikipedia.org'')) None,
      Called (Fill (lit ''input[name=search]'') searchTerm) None,
      Called (Press (lit ''Enter'')) None,
      Called (WaitForSelector (lit ''#mw-content-text a'') (Some 10000)) None,
      Called (Click (lit ''#mw-content-text a'')) None,
      Called (WaitForLoadState (lit ''networkidle'')) None]"

definition scroll_events :: "jsstring \<Rightarrow> event list" where
  "scroll_events url =
     [Console Out (Loaded url),
      Console Out ScrollingDown,
      Called (Wheel 0 1500) None,
      Called (WaitForTimeout 800) None,
      Called (Wheel 0 1500) None,
      Called (WaitForTimeout 800) None,
      Called (Wheel 0 1000) None,
      Called (WaitForTimeout 500) None]"

definition capture_history :: "env \<Rightarrow> jsstring \<Rightarrow> state \<Rightarrow> event list" where
  "capture_history env searchTerm s =
     trace s @ search_events searchTerm
       @ scroll_events (page_url env (trace s @ search_events searchTerm))"

definition capture_date :: "env \<Rightarrow> jsstring \<Rightarrow> state \<Rightarrow> date" where
  "capture_date env searchTerm s = clock env (capture_history env searchTerm s)"

definition capture_path :: "env \<Rightarrow> jsstring \<Rightarrow> state \<Rightarrow> jsstring" where
  "capture_path env searchTerm s =
     path_join (out_dir env) (filename searchTerm (capture_date env searchTerm s))"

text \<open>
  The environment accepts the calls of a list of events replayed from a history: none is
  rejected, each being asked after the events before it. The steps of a capture succeed
  when there is a page, the environment accepts every call of the capture up to and
  including the full-page screenshot, and no directory is in the way of the picture.
\<close>

fun accepts :: "env \<Rightarrow> event list \<Rightarrow> event list \<Rightarrow> bool" where
  "accepts env h [] = True"
| "accepts env h (Called c r # es) = (respond env h c = None \<and> accepts env (h @ [Called c r]) es)"
| "accepts env h (Console ch m # es) = accepts env (h @ [Console ch m]) es"

definition steps_succeed :: "env \<Rightarrow> jsstring \<Rightarrow> state \<Rightarrow> bool" where
  "steps_succeed env searchTerm s =
     (page s
      \<and> accepts env (trace s)
          (search_events searchTerm
           @ scroll_events (page_url env (trace s @ search_events searchTerm))
           @ [Called (Screenshot (capture_path env searchTerm s) True) None])
      \<and> fs s (capture_path env searchTerm s) \<noteq> Some Dir)"

text \<open>The events a run added: those of the later history after the earlier one.\<close>

definition since :: "state \<Rightarrow> state \<Rightarrow> event list" where
  "since s s' = drop (length (trace s)) (trace s')"

text \<open>
  The two halves of \<^verbatim>\<open>searchAndCapture\<close> under names of their own: the body of its
  \<^verbatim>\<open>try\<close> (lines 36 to 72) and its \<^verbatim>\<open>catch\<close> block (lines 75 to 89), text for text.
\<close>

definition try_part :: "env \<Rightarrow> jsstring \<Rightarrow> jsstring option prog" where
  "try_part env searchTerm =
     andThen
          (block
            [page_call env (Goto (lit ''https://www.wikipedia.org'')),
             page_call env (Fill (lit ''input[name=search]'') searchTerm),
             page_call env (Press (lit ''Enter'')),
             page_call env (WaitForSelector (lit ''#mw-content-text a'') (Some 10000)),
             page_call env (Click (lit ''#mw-content-text a'')),
             page_call env (WaitForLoadState (lit ''networkidle''))]) (\<lambda>_.
        andThen (current_url env) (\<lambda>url.
        andThen
          (block
            [log Out (Loaded url),
             log Out ScrollingDown,
             page_call env (Wheel 0 1500),
             page_call env (WaitForTimeout 800),
             page_call env (Wheel 0 1500),
             page_call env (WaitForTimeout 800),
             page_call env (Wheel 0 1000),
             page_call env (WaitForTimeout 500)]) (\<lambda>_.
        andThen (new_Date env) (\<lambda>now.
        andThen
          (block
            [screenshot env (path_join (out_dir env) (filename searchTerm now)) True,
             log Out (ScreenshotSaved (filename searchTerm now))]) (\<lambda>_.
        ret (Some (path_join (out_dir env) (filename searchTerm now))))))))"

definition catch_part :: "env \<Rightarrow> jsstring \<Rightarrow> error \<Rightarrow> jsstring option prog" where
  "catch_part env searchTerm error =
          andThen
            (block
              [log Err (ErrorProcessing searchTerm error),
               tryCatch
                 (block
                   [screenshot env (path_join (out_dir env) (errorFilename searchTerm)) False,
                    log Out (ErrorScreenshotSaved (errorFilename searchTerm))])
                 (\<lambda>screenshotError. log Out CouldNotTakeErrorScreenshot)]) (\<lambda>_.
          ret None)"

text \<open>
  What the \<^verbatim>\<open>catch\<close> block leaves after its report: the error screenshot and its line,
  with a new file at the error path, or the line that no screenshot could be taken
  (after a rejected screenshot, or with no page at all) and the files as they were.
\<close>

definition aftermath ::
  "env \<Rightarrow> jsstring \<Rightarrow> (jsstring \<Rightarrow> entry option) \<Rightarrow> (jsstring \<Rightarrow> entry option) \<Rightarrow> event list \<Rightarrow> bool"
where
  "aftermath env t before after tail =
     (tail = [Called (Screenshot (path_join (out_dir env) (errorFilename t)) False) None,
              Console Out (ErrorScreenshotSaved (errorFilename t))]
        \<and> (\<exists>img. after = before(path_join (out_dir env) (errorFilename t) \<mapsto> File img))
      \<or> after = before
        \<and> (tail = [Console Out CouldNotTakeErrorScreenshot]
           \<or> (\<exists>e'. tail =
                 [Called (Screenshot (path_join (out_dir env) (errorFilename t)) False) (Some e'),
                  Console Out CouldNotTakeErrorScreenshot])))"

text \<open>
  Readings of the events of an attempt: the errors of the calls that were rejected, the
  reports of the \<^verbatim>\<open>catch\<close> block on the error console (line 75) with their term and
  error, and the paths of the viewport screenshots that were written. Without its last
  two events a history that ends with the error screenshot and the line after it is the
  history at the moment the \<^verbatim>\<open>catch\<close> block asked for that screenshot.
\<close>

fun rejections :: "event list \<Rightarrow> error list" where
  "rejections [] = []"
| "rejections (Called c (Some e) # es) = e # rejections es"
| "rejections (ev # es) = rejections es"

fun reported :: "event list \<Rightarrow> (jsstring \<times> error) list" where
  "reported [] = []"
| "reported (Console Err (ErrorProcessing t e) # es) = (t, e) # reported es"
| "reported (ev # es) = reported es"

fun error_shots :: "event list \<Rightarrow> jsstring list" where
  "error_shots [] = []"
| "error_shots (Called (Screenshot p False) None # es) = p # error_shots es"
| "error_shots (e # es) = error_shots es"

definition fallback_history :: "state \<Rightarrow> event list" where
  "fallback_history s' = take (length (trace s') - 2) (trace s')"

text \<open>
  A path lies directly under a directory; a file name without its last four units, and
  those four units; the date stamp \<^verbatim>\<open>YYYY-MM-DD\<close> that line 62 leaves of the ISO string.
\<close>

definition under :: "jsstring \<Rightarrow> jsstring \<Rightarrow> bool" where
  "under dir p = (take (length dir + 1) p = dir @ lit ''/'' \<and> 47 \<notin> set (drop (length dir + 1) p))"

definition stem :: "jsstring \<Rightarrow> jsstring" where
  "stem name = take (length name - 4) name"

definition extension :: "jsstring \<Rightarrow> jsstring" where
  "extension name = drop (length name - 4) name"

definition date_part :: "date \<Rightarrow> jsstring" where
  "date_part d =
     (if year d \<le> 9999 then pad 4 (year d) else lit ''+'' @ pad 6 (year d))
     @ lit ''-'' @ pad 2 (month d) @ lit ''-'' @ pad 2 (day d)"

subsection \<open>The terms file as the specification reads it\<close>

text \<open>
  The specification's words: the text is split into lines, blank lines are discarded,
  and each line is trimmed. A line is blank when it has nothing but white space. The
  source trims first and drops the empty results (\<open>parse_terms\<close>).
\<close>

definition blank :: "jsstring \<Rightarrow> bool" where
  "blank line = list_all is_ws line"

definition spec_terms :: "jsstring \<Rightarrow> jsstring list" where
  "spec_terms content = map trim (filter (\<lambda>line. \<not> blank line) (js_split 10 content))"

subsection \<open>What a statement may add\<close>

text \<open>
  The events of the steps before the screenshot: a page call whatever its outcome, the
  two progress lines, and a full-page screenshot that was rejected.
\<close>

definition page_step :: "call \<Rightarrow> bool" where
  "page_step c =
     (case c of
        Goto u \<Rightarrow> True | Fill a b \<Rightarrow> True | Press k \<Rightarrow> True | WaitForSelector a b \<Rightarrow> True
      | Click a \<Rightarrow> True | WaitForLoadState a \<Rightarrow> True | Wheel x y \<Rightarrow> True
      | WaitForTimeout n \<Rightarrow> True | _ \<Rightarrow> False)"

definition plain :: "event \<Rightarrow> bool" where
  "plain e =
     (case e of
        Console ch m \<Rightarrow> (case m of Loaded u \<Rightarrow> True | ScrollingDown \<Rightarrow> True | _ \<Rightarrow> False)
      | Called c r \<Rightarrow> (case c of Screenshot p full \<Rightarrow> full \<and> r \<noteq> None | _ \<Rightarrow> page_step c))"

text \<open>
  A statement that leaves the files and the object alone and adds plain events only,
  whatever its outcome, or when it throws.
\<close>

definition quiet :: "'a prog \<Rightarrow> bool" where
  "quiet m =
     (\<forall>s r s'. m s = (r, s') \<longrightarrow>
        fs s' = fs s \<and> browser s' = browser s \<and> page s' = page s
        \<and> (\<exists>evs. trace s' = trace s @ evs \<and> list_all plain evs))"

definition quiet_if_thrown :: "'a prog \<Rightarrow> bool" where
  "quiet_if_thrown m =
     (\<forall>s e s'. m s = (Inl e, s') \<longrightarrow>
        fs s' = fs s \<and> browser s' = browser s \<and> page s' = page s
        \<and> (\<exists>evs. trace s' = trace s @ evs \<and> list_all plain evs))"

text \<open>
  A statement that keeps the \<^verbatim>\<open>page\<close> field and throws what was rejected: when it
  returns, no call of its own was rejected; when it throws with a page, exactly one was,
  with the error it throws; when it throws without a page, none was, and it throws a
  \<open>TypeError\<close>.
\<close>

definition faithful :: "'a prog \<Rightarrow> bool" where
  "faithful m =
     (\<forall>s r s'. m s = (r, s') \<longrightarrow>
        page s' = page s
        \<and> (\<exists>evs. trace s' = trace s @ evs
             \<and> (case r of
                   Inr x \<Rightarrow> rejections evs = []
                 | Inl e \<Rightarrow> rejections evs = (if page s then [e] else [])
                            \<and> (\<not> page s \<longrightarrow> e = TypeError))))"


definition mild :: "event \<Rightarrow> bool" where
  "mild e = (searched [e] = [] \<and> \<not> launched [e])"

definition adds :: "(event \<Rightarrow> bool) \<Rightarrow> 'a prog \<Rightarrow> bool" where
  "adds P m =
     (\<forall>s r s'. m s = (r, s') \<longrightarrow>
        browser s' = browser s
        \<and> (\<exists>evs. trace s' = trace s @ evs \<and> list_all P evs))"

subsection \<open>Environments and states of the examples\<close>

text \<open>An environment where every call succeeds, on the third of November 2026.\<close>

definition calm :: env where
  "calm = \<lparr>respond = (\<lambda>h c. None),
           page_url = (\<lambda>h. lit ''https://en.wikipedia.org/wiki/Boxing''),
           clock = (\<lambda>h. \<lparr>year = 2026, month = 11, day = 3, hours = 10, minutes = 51,
                          seconds = 0, millis = 0\<rparr>),
           image = (\<lambda>h. [137, 80, 78, 71]),
           utf8 = (\<lambda>bytes. map of_nat bytes),
           out_dir = lit ''/home/u/snapshots''\<rparr>"

definition today :: date where
  "today = \<lparr>year = 2026, month = 11, day = 3, hours = 10, minutes = 51, seconds = 0, millis = 0\<rparr>"

text \<open>
  Environments where something is rejected: every call but the screenshots; the same on
  the next day, with another picture on the screen; every call; the pause between two
  terms; the navigation; the opening of the browsing context.
\<close>

definition stormy :: env where
  "stormy = calm\<lparr>respond := (\<lambda>h c. case c of Screenshot p full \<Rightarrow> None | _ \<Rightarrow> Some (Failure 1))\<rparr>"

definition later :: env where
  "later = stormy\<lparr>clock := (\<lambda>h. today\<lparr>day := 4\<rparr>), image := (\<lambda>h. [137, 80, 78, 71, 4])\<rparr>"

definition blackout :: env where
  "blackout = calm\<lparr>respond := (\<lambda>h c. Some (Failure 1))\<rparr>"

definition impatient :: env where
  "impatient =
     calm\<lparr>respond := (\<lambda>h c. if c = WaitForTimeout 2000 then Some (Failure 1) else None)\<rparr>"

definition offline :: env where
  "offline = calm\<lparr>respond := (\<lambda>h c. case c of Goto url \<Rightarrow> Some (Failure 1) | _ \<Rightarrow> None)\<rparr>"


text \<open>
  An object whose page is open, on an empty file system; the same with a terms file of
  the three lines \<^verbatim>\<open>a\<close>, blank, \<^verbatim>\<open>b\<close>; and a file system where a regular file has the
  name of the output directory.
\<close>

definition ready :: state where
  "ready = \<lparr>trace = [], fs = Map.empty, browser = True, browserContext = True, page = True\<rparr>"

definition desk :: state where
  "desk = ready\<lparr>fs := [lit ''terms.txt'' \<mapsto> File [97, 10, 10, 98]]\<rparr>"

definition cluttered :: "jsstring \<Rightarrow> entry option" where
  "cluttered = [out_dir calm \<mapsto> File []]"

text \<open>What the second script adds to the history when all of it succeeds.\<close>

definition part_000_events :: "env \<Rightarrow> event list" where
  "part_000_events env =
     [Called (Launch False 500) None,
      Called NewContext None,
      Called NewPage None,
      Called (Goto (lit ''https://www.wikipedia.org'')) None,
      Called (Fill (lit ''input[name=search]'') (lit ''Boxing'')) None,
      Called (Press (lit ''Enter'')) None,
      Called (WaitForSelector (lit ''#mw-content-text a'') None) None,
      Called (Click (lit ''#mw-content-text a'')) None,
      Called (Wheel 0 2000) None,
      Called (WaitForTimeout 1000) None,
      Called (Wheel 0 2000) None,
      Called (WaitForTimeout 1000) None,
      Called (Screenshot (path_join (out_dir env) (lit ''info.png'')) True) None,
      Console Out InfoSaved,
      Called Close None]"

section \<open>Theorems on strings and file names\<close>

lemma digit_is_digit: "is_digit (digit n)"
proof -
  have "unat (of_nat (48 + n mod 10) :: jschar) = 48 + n mod 10"
    by (simp add: unat_of_nat del: of_nat_add)
  then show ?thesis
    unfolding digit_def is_digit_def word_le_nat_alt by simp
qed

lemma pad_digits: "list_all is_digit (pad k n)"
  by (induction k arbitrary: n) (simp_all add: digit_is_digit)

lemma length_pad: "length (pad k n) = k"
  by (induction k arbitrary: n) simp_all

lemma lit_simps:
  "lit [] = []" "lit (c # cs) = of_nat (of_char c) # lit cs"
  by (simp_all add: lit_def)

lemma upper_to_lower: "is_upper c \<Longrightarrow> is_lower (c + 32)"
  unfolding is_upper_def is_lower_def
  by (simp add: word_le_nat_alt unat_word_ariths)

lemma lower_unit_cases:
  "lower_alnum_us (lower_unit (if is_alnum c then c else 95))"
proof (cases "is_upper c")
  case True
  then show ?thesis
    by (simp add: lower_unit_def is_alnum_def lower_alnum_us_def upper_to_lower)
next
  case False
  have "\<not> is_upper 95" by (simp add: is_upper_def)
  with False show ?thesis
    by (auto simp: lower_unit_def is_alnum_def lower_alnum_us_def)
qed

lemma replace_all_unit: "replace_all matches [x] s = map (\<lambda>c. if matches c then x else c) s"
  by (induction s) (simp_all add: replace_all_def)

lemma sanitizedTerm_map:
  "sanitizedTerm t = map (\<lambda>c. lower_unit (if is_alnum c then c else 95)) t"
  by (simp add: sanitizedTerm_def toLowerCase_def lit_simps replace_all_unit if_distrib [of lower_unit] cong: if_cong)

lemma sanitizedTerm_chars: "list_all lower_alnum_us (sanitizedTerm t)"
  by (simp add: sanitizedTerm_map list_all_iff lower_unit_cases)

lemma length_sanitizedTerm: "length (sanitizedTerm t) = length t"
  by (simp add: sanitizedTerm_map)

lemma replace_all_append:
  "replace_all matches rep (xs @ ys) = replace_all matches rep xs @ replace_all matches rep ys"
  by (simp add: replace_all_def)

lemma replace_all_none:
  "list_all (\<lambda>c. \<not> matches c) xs \<Longrightarrow> replace_all matches rep xs = xs"
  by (induction xs) (simp_all add: replace_all_def)

lemma js_split_first:
  "sep \<notin> set xs \<Longrightarrow> js_split sep (xs @ sep # ys) = xs # js_split sep ys"
  by (induction xs) auto

lemma digit_plain: "is_digit c \<Longrightarrow> \<not> (c = 58 \<or> c = 46) \<and> c \<noteq> 84"
  by (auto simp: is_digit_def)

lemma digits_plain:
  assumes "list_all is_digit xs"
  shows "list_all (\<lambda>c. \<not> (c = 58 \<or> c = 46)) xs" and "84 \<notin> set xs"
  using assms digit_plain by (auto simp: list_all_iff)

lemma date_part_chars: "list_all (\<lambda>c. is_digit c \<or> c = 45 \<or> c = 43) (date_part d)"
proof -
  have "list_all is_digit xs \<Longrightarrow> list_all (\<lambda>c. is_digit c \<or> c = 45 \<or> c = 43) xs" for xs
    by (simp add: list_all_iff)
  then show ?thesis
    by (simp add: date_part_def lit_simps pad_digits)
qed

lemma date_part_plain:
  "list_all (\<lambda>c. \<not> (c = 58 \<or> c = 46)) (date_part d)" "84 \<notin> set (date_part d)"
  using date_part_chars [of d] by (auto simp: list_all_iff is_digit_def)

lemma timestamp_eq: "timestamp d = date_part d"
proof -
  have iso: "toISOString d = date_part d @ 84 # (pad 2 (hours d) @ lit '':'' @ pad 2 (minutes d)
     @ lit '':'' @ pad 2 (seconds d) @ lit ''.'' @ pad 3 (millis d) @ lit ''Z'')"
    by (simp add: toISOString_def date_part_def lit_simps)
  have cons: "replace_all matches rep (x # xs) = (if matches x then rep else [x]) @ replace_all matches rep xs"
    for matches rep x and xs :: jsstring
    by (simp add: replace_all_def)
  have keep: "replace_all (\<lambda>c. c = 58 \<or> c = 46) (lit ''-'') (date_part d) = date_part d"
    by (rule replace_all_none) (rule date_part_plain)
  have "\<exists>rest. replace_all (\<lambda>c. c = 58 \<or> c = 46) (lit ''-'') (toISOString d)
      = date_part d @ 84 # rest"
    unfolding iso replace_all_append keep
    by (simp add: cons)
  then obtain rest where "replace_all (\<lambda>c. c = 58 \<or> c = 46) (lit ''-'') (toISOString d)
      = date_part d @ 84 # rest" ..
  then show ?thesis
    by (simp add: timestamp_def js_split_first date_part_plain)
qed

lemma timestamp_chars:
  "year d \<le> 9999 \<Longrightarrow> list_all digit_or_hyphen (timestamp d)"
proof -
  have "list_all is_digit xs \<Longrightarrow> list_all digit_or_hyphen xs" for xs
    by (simp add: list_all_iff digit_or_hyphen_def)
  then show "year d \<le> 9999 \<Longrightarrow> list_all digit_or_hyphen (timestamp d)"
    by (simp add: timestamp_eq date_part_def lit_simps pad_digits digit_or_hyphen_def)
qed

lemma stem_extension: "stem (xs @ lit ''.png'') = xs" "extension (xs @ lit ''.png'') = lit ''.png''"
  by (simp_all add: stem_def extension_def lit_simps)

text \<open>
  C4, as amended. The name of the screenshot of a capture that goes well is the
  sanitised term, an underscore, the date stamp and the extension \<^verbatim>\<open>.png\<close>. Every unit
  of the term outside \<^verbatim>\<open>[A-Za-z0-9]\<close> becomes an underscore and every letter is
  lower-cased, so the sanitised term has only units of \<^verbatim>\<open>[a-z0-9_]\<close>; the date stamp
  \<^verbatim>\<open>YYYY-MM-DD\<close> has digits and hyphens. Before the extension the name therefore has
  only units of \<^verbatim>\<open>[a-z0-9_]\<close> and hyphens (for a year up to 9999).
\<close>

theorem filename_characters:
  "year now \<le> 9999 \<Longrightarrow>
     extension (filename t now) = lit ''.png''
   \<and> stem (filename t now) = sanitizedTerm t @ lit ''_'' @ timestamp now
   \<and> sanitizedTerm t = map (\<lambda>c. if is_alnum c then lower_unit c else 95) t
   \<and> list_all lower_alnum_us (sanitizedTerm t)
   \<and> list_all digit_or_hyphen (timestamp now)
   \<and> list_all (\<lambda>c. lower_alnum_us c \<or> c = 45) (stem (filename t now))"
proof -
  assume y: "year now \<le> 9999"
  have fn: "filename t now = (sanitizedTerm t @ lit ''_'' @ timestamp now) @ lit ''.png''"
    by (simp add: filename_def)
  have st: "stem (filename t now) = sanitizedTerm t @ lit ''_'' @ timestamp now"
    unfolding fn by (rule stem_extension)
  have ex: "extension (filename t now) = lit ''.png''"
    unfolding fn by (rule stem_extension)
  have "lower_unit 95 = 95" by (simp add: lower_unit_def is_upper_def)
  then have m: "sanitizedTerm t = map (\<lambda>c. if is_alnum c then lower_unit c else 95) t"
    by (simp add: sanitizedTerm_map if_distrib [of lower_unit] cong: if_cong)
  have a: "list_all (\<lambda>c. lower_alnum_us c \<or> c = 45) (sanitizedTerm t)"
    using sanitizedTerm_chars [of t] by (simp add: list_all_iff)
  have b: "list_all (\<lambda>c. lower_alnum_us c \<or> c = 45) (timestamp now)"
    using timestamp_chars [OF y] by (auto simp: list_all_iff digit_or_hyphen_def lower_alnum_us_def)
  have c: "list_all (\<lambda>c. lower_alnum_us c \<or> c = 45) (lit ''_'')"
    by (simp add: lit_simps lower_alnum_us_def)
  show ?thesis
    using st ex m a b c sanitizedTerm_chars [of t] timestamp_chars [OF y] by simp
qed

lemma stem_today: "stem (filename (lit ''A b'') today) = lit ''a_b_2026-11-03''"
  by code_simp

theorem filename_characters_witness:
  "year today \<le> 9999
   \<and> stem (filename (lit ''A b'') today) = lit ''a_b_2026-11-03''
   \<and> list_all (\<lambda>c. lower_alnum_us c \<or> c = 45) (stem (filename (lit ''A b'') today))"
proof -
  have y: "year today \<le> 9999"
    by (simp add: today_def)
  note all = filename_characters [OF y, of "lit ''A b''"]
  note last = all [THEN conjunct2, THEN conjunct2, THEN conjunct2, THEN conjunct2, THEN conjunct2]
  show ?thesis
    by (rule conjI [OF y conjI [OF stem_today last]])
qed

text \<open>
  The claim as it was written fails on the hyphens of the date: the name made for the
  term \<^verbatim>\<open>A b\<close> on 2026-11-03 is \<^verbatim>\<open>a_b_2026-11-03.png\<close>.
\<close>

theorem filename_hyphen_counterexample:
  "\<not> list_all lower_alnum_us (stem (filename (lit ''A b'') today))"
  by code_simp


section \<open>Running statements\<close>

lemma trace_emit [simp]: "trace (emit e s) = trace s @ [e]"
  and fs_emit [simp]: "fs (emit e s) = fs s"
  and browser_emit [simp]: "browser (emit e s) = browser s"
  and page_emit [simp]: "page (emit e s) = page s"
  by (simp_all add: emit_def)

lemma ret_eq: "(ret x s = (r, s')) = (r = Inr x \<and> s' = s)"
  by (auto simp: ret_def)

lemma log_eq: "(log ch m s = (r, s')) = (r = Inr () \<and> s' = emit (Console ch m) s)"
  by (auto simp: log_def)

lemma andThen_Inr:
  "(andThen m f s = (Inr y, s')) = (\<exists>x s1. m s = (Inr x, s1) \<and> f x s1 = (Inr y, s'))"
  by (auto simp: andThen_def split: prod.splits sum.splits)

lemma andThen_Inl:
  "(andThen m f s = (Inl e, s')) =
     (m s = (Inl e, s') \<or> (\<exists>x s1. m s = (Inr x, s1) \<and> f x s1 = (Inl e, s')))"
  by (auto simp: andThen_def split: prod.splits sum.splits)

lemma tryCatch_Inr:
  "(tryCatch m h s = (Inr y, s')) =
     (m s = (Inr y, s') \<or> (\<exists>e s1. m s = (Inl e, s1) \<and> h e s1 = (Inr y, s')))"
  by (auto simp: tryCatch_def split: prod.splits sum.splits)

lemma tryCatch_Inl:
  "(tryCatch m h s = (Inl e', s')) = (\<exists>e s1. m s = (Inl e, s1) \<and> h e s1 = (Inl e', s'))"
  by (auto simp: tryCatch_def split: prod.splits sum.splits)

lemma block_Nil_eq: "(block [] s = (r, s')) = (r = Inr () \<and> s' = s)"
  by (simp add: ret_eq)

lemma block_Cons_Inr:
  "(block (m # ms) s = (Inr u, s')) = (\<exists>s1. m s = (Inr (), s1) \<and> block ms s1 = (Inr (), s'))"
  by (simp add: andThen_Inr)

lemma block_Cons_Inl:
  "(block (m # ms) s = (Inl e, s')) =
     (m s = (Inl e, s') \<or> (\<exists>s1. m s = (Inr (), s1) \<and> block ms s1 = (Inl e, s')))"
  by (simp add: andThen_Inl)

lemma external_Inr:
  "(external env c s = (Inr u, s')) =
     (respond env (trace s) c = None \<and> s' = emit (Called c None) s)"
  by (auto simp: external_def failed_def done_call_def split: option.splits)

lemma external_Inl:
  "(external env c s = (Inl e, s')) =
     (respond env (trace s) c = Some e \<and> s' = emit (Called c (Some e)) s)"
  by (auto simp: external_def failed_def done_call_def split: option.splits)

lemma page_call_Inr:
  "(page_call env c s = (Inr u, s')) =
     (page s \<and> respond env (trace s) c = None \<and> s' = emit (Called c None) s)"
  by (auto simp: page_call_def on_page_def external_Inr)

lemma page_call_Inl:
  "(page_call env c s = (Inl e, s')) =
     (if page s then respond env (trace s) c = Some e \<and> s' = emit (Called c (Some e)) s
      else e = TypeError \<and> s' = s)"
  by (auto simp: page_call_def on_page_def external_Inl)

lemma screenshot_Inr:
  "(screenshot env p full s = (Inr u, s')) =
     (page s \<and> respond env (trace s) (Screenshot p full) = None \<and> fs s p \<noteq> Some Dir \<and>
      s' = emit (Called (Screenshot p full) None)
             (s\<lparr>fs := (fs s)(p \<mapsto> File (image env (trace s)))\<rparr>))"
  by (auto simp: screenshot_def on_page_def take_screenshot_def failed_def done_call_def
      split: option.splits)

lemma screenshot_Inl:
  "(screenshot env p full s = (Inl e, s')) =
     (if page s then
        (respond env (trace s) (Screenshot p full) = Some e
         \<or> respond env (trace s) (Screenshot p full) = None \<and> fs s p = Some Dir \<and> e = EISDIR)
        \<and> s' = emit (Called (Screenshot p full) (Some e)) s
      else e = TypeError \<and> s' = s)"
  by (auto simp: screenshot_def on_page_def take_screenshot_def failed_def done_call_def
      split: option.splits)

lemma current_url_Inr:
  "(current_url env s = (Inr u, s')) = (page s \<and> u = page_url env (trace s) \<and> s' = s)"
  by (auto simp: current_url_def on_page_def)

lemma current_url_Inl:
  "(current_url env s = (Inl e, s')) = (\<not> page s \<and> e = TypeError \<and> s' = s)"
  by (auto simp: current_url_def on_page_def)

lemma new_Date_eq: "(new_Date env s = (r, s')) = (r = Inr (clock env (trace s)) \<and> s' = s)"
  by (auto simp: new_Date_def)

lemmas went_well = ret_eq log_eq andThen_Inr tryCatch_Inr block_Nil_eq block_Cons_Inr
  page_call_Inr screenshot_Inr current_url_Inr new_Date_eq

section \<open>The command line\<close>

text \<open>
  C8. With no argument after the interpreter and the script, the run prints the usage
  text on standard output and ends with exit code 0; it makes no library call at all
  (no browser, no directory, no capture) and leaves the file system as it was.
\<close>

theorem usage_only:
  "run env [node, script] files = (0, (start files)\<lparr>trace := [Console Out Usage]\<rparr>)
   \<and> calls_of (trace (snd (run env [node, script] files))) = []
   \<and> fs (snd (run env [node, script] files)) = files"
  by (simp add: run_def main_def log_def emit_def start_def)

section \<open>One capture\<close>

lemma searchAndCapture_parts:
  "searchAndCapture env t =
     andThen (log Out (Searching t)) (\<lambda>_. tryCatch (try_part env t) (catch_part env t))"
  unfolding searchAndCapture_def try_part_def catch_part_def by (rule refl)

lemma page_call_Inl':
  "(page_call env c s = (Inl e, s')) =
     (page s \<and> respond env (trace s) c = Some e \<and> s' = emit (Called c (Some e)) s
      \<or> \<not> page s \<and> e = TypeError \<and> s' = s)"
  by (auto simp: page_call_Inl)

lemma screenshot_Inl':
  "(screenshot env p full s = (Inl e, s')) =
     (page s \<and> (respond env (trace s) (Screenshot p full) = Some e
         \<or> respond env (trace s) (Screenshot p full) = None \<and> fs s p = Some Dir \<and> e = EISDIR)
        \<and> s' = emit (Called (Screenshot p full) (Some e)) s
      \<or> \<not> page s \<and> e = TypeError \<and> s' = s)"
  by (auto simp: screenshot_Inl)

lemma quiet_ret: "quiet (ret x)"
  by (simp add: quiet_def ret_eq)

lemma quiet_log: "plain (Console ch m) \<Longrightarrow> quiet (log ch m)"
  by (simp add: quiet_def log_eq)

lemma quiet_page_call: "page_step c \<Longrightarrow> quiet (page_call env c)"
  unfolding quiet_def
proof (intro allI impI)
  fix s r s'
  assume c: "page_step c" and run: "page_call env c s = (r, s')"
  have p: "plain (Called c x)" for x
    using c by (cases c) (simp_all add: plain_def page_step_def)
  show "fs s' = fs s \<and> browser s' = browser s \<and> page s' = page s
        \<and> (\<exists>evs. trace s' = trace s @ evs \<and> list_all plain evs)"
  proof (cases r)
    case (Inl e)
    with run p show ?thesis by (auto simp: page_call_Inl')
  next
    case (Inr u)
    with run p show ?thesis by (auto simp: page_call_Inr)
  qed
qed

lemma quiet_current_url: "quiet (current_url env)"
  by (auto simp: quiet_def current_url_def on_page_def)

lemma quiet_new_Date: "quiet (new_Date env)"
  by (simp add: quiet_def new_Date_eq)

lemma quiet_andThen:
  assumes "quiet m" and "\<And>x. quiet (f x)"
  shows "quiet (andThen m f)"
  unfolding quiet_def
proof (intro allI impI)
  fix s r s'
  assume run: "andThen m f s = (r, s')"
  obtain r1 s1 where m: "m s = (r1, s1)" by (cases "m s")
  from assms(1) m obtain evs1 where
    1: "fs s1 = fs s" "browser s1 = browser s" "page s1 = page s"
       "trace s1 = trace s @ evs1" "list_all plain evs1"
    unfolding quiet_def by blast
  show "fs s' = fs s \<and> browser s' = browser s \<and> page s' = page s
        \<and> (\<exists>evs. trace s' = trace s @ evs \<and> list_all plain evs)"
  proof (cases r1)
    case (Inl e)
    with run m have "s' = s1" by (simp add: andThen_def)
    with 1 show ?thesis by simp
  next
    case (Inr x)
    with run m have "f x s1 = (r, s')" by (simp add: andThen_def)
    with assms(2) [of x] obtain evs2 where
      2: "fs s' = fs s1" "browser s' = browser s1" "page s' = page s1"
         "trace s' = trace s1 @ evs2" "list_all plain evs2"
      unfolding quiet_def by blast
    from 1 2 have "trace s' = trace s @ (evs1 @ evs2)" "list_all plain (evs1 @ evs2)"
      by simp_all
    with 1 2 show ?thesis by metis
  qed
qed

lemma quiet_block_Nil: "quiet (block [])"
  by (simp add: quiet_ret)

lemma quiet_block_Cons: "quiet m \<Longrightarrow> quiet (block ms) \<Longrightarrow> quiet (block (m # ms))"
  by (simp add: quiet_andThen)

lemma quiet_if_thrown_andThen:
  assumes "quiet m" and "\<And>x. quiet_if_thrown (f x)"
  shows "quiet_if_thrown (andThen m f)"
  unfolding quiet_if_thrown_def
proof (intro allI impI)
  fix s e s'
  assume run: "andThen m f s = (Inl e, s')"
  obtain r1 s1 where m: "m s = (r1, s1)" by (cases "m s")
  from assms(1) m obtain evs1 where
    1: "fs s1 = fs s" "browser s1 = browser s" "page s1 = page s"
       "trace s1 = trace s @ evs1" "list_all plain evs1"
    unfolding quiet_def by blast
  show "fs s' = fs s \<and> browser s' = browser s \<and> page s' = page s
        \<and> (\<exists>evs. trace s' = trace s @ evs \<and> list_all plain evs)"
  proof (cases r1)
    case (Inl e1)
    with run m have "s' = s1" by (simp add: andThen_def)
    with 1 show ?thesis by simp
  next
    case (Inr x)
    with run m have "f x s1 = (Inl e, s')" by (simp add: andThen_def)
    with assms(2) [of x] obtain evs2 where
      2: "fs s' = fs s1" "browser s' = browser s1" "page s' = page s1"
         "trace s' = trace s1 @ evs2" "list_all plain evs2"
      unfolding quiet_if_thrown_def by blast
    from 1 2 have "trace s' = trace s @ (evs1 @ evs2)" "list_all plain (evs1 @ evs2)"
      by simp_all
    with 1 2 show ?thesis by metis
  qed
qed

lemma quiet_if_thrown_shot:
  "quiet_if_thrown (andThen (block [screenshot env p True, log ch m]) (\<lambda>_. ret x))"
  unfolding quiet_if_thrown_def
  by (auto simp: andThen_Inl block_Cons_Inl screenshot_Inl' went_well plain_def)

lemmas quiet_intros = quiet_ret quiet_log quiet_page_call quiet_current_url quiet_new_Date
  quiet_block_Nil quiet_block_Cons

lemma try_part_quiet_if_thrown: "quiet_if_thrown (try_part env t)"
  unfolding try_part_def
  by (intro quiet_if_thrown_andThen quiet_if_thrown_shot quiet_intros)
     (simp_all add: page_step_def plain_def)

lemma try_part_fails:
  assumes "try_part env t s = (Inl e, s')"
  shows "fs s' = fs s \<and> browser s' = browser s \<and> page s' = page s
       \<and> (\<exists>evs. trace s' = trace s @ evs \<and> list_all plain evs)"
  using assms try_part_quiet_if_thrown unfolding quiet_if_thrown_def by blast

lemma catch_part_result:
  assumes "catch_part env t e s = (r, s')"
  shows "r = Inr None \<and> browser s' = browser s \<and> page s' = page s
     \<and> (trace s' = trace s @
            [Console Err (ErrorProcessing t e),
             Called (Screenshot (path_join (out_dir env) (errorFilename t)) False) None,
             Console Out (ErrorScreenshotSaved (errorFilename t))]
          \<and> (\<exists>img. fs s' = (fs s)(path_join (out_dir env) (errorFilename t) \<mapsto> File img))
        \<or> fs s' = fs s
          \<and> (trace s' = trace s @
                [Console Err (ErrorProcessing t e), Console Out CouldNotTakeErrorScreenshot]
             \<or> (\<exists>e'. trace s' = trace s @
                   [Console Err (ErrorProcessing t e),
                    Called (Screenshot (path_join (out_dir env) (errorFilename t)) False) (Some e'),
                    Console Out CouldNotTakeErrorScreenshot])))"
proof (cases r)
  case (Inl e')
  with assms have False
    unfolding catch_part_def
    by (auto simp: andThen_Inl block_Cons_Inl tryCatch_Inl went_well)
  then show ?thesis ..
next
  case (Inr x)
  with assms show ?thesis
    unfolding catch_part_def
    by (auto simp: went_well andThen_Inl block_Cons_Inl screenshot_Inl')
qed

lemma try_part_ok:
  assumes "try_part env t (emit (Console Out (Searching t)) s) = (Inr x, s')"
  shows "x = Some (capture_path env t s) \<and> page s
      \<and> trace s' = capture_history env t s
           @ [Called (Screenshot (capture_path env t s) True) None,
              Console Out (ScreenshotSaved (filename t (capture_date env t s)))]
      \<and> fs s' = (fs s)(capture_path env t s \<mapsto> File (image env (capture_history env t s)))
      \<and> browser s' = browser s \<and> page s' = page s"
  using assms
  unfolding try_part_def capture_path_def capture_date_def capture_history_def
    search_events_def scroll_events_def
  by (auto simp: went_well)

lemma capture_cases:
  assumes "searchAndCapture env t s = (r, s')"
  shows "browser s' = browser s \<and> page s' = page s
     \<and> (r = Inr (Some (capture_path env t s)) \<and> page s
          \<and> trace s' = capture_history env t s
               @ [Called (Screenshot (capture_path env t s) True) None,
                  Console Out (ScreenshotSaved (filename t (capture_date env t s)))]
          \<and> fs s' = (fs s)(capture_path env t s \<mapsto> File (image env (capture_history env t s)))
        \<or> (\<exists>e evs tail. r = Inr None \<and> list_all plain evs
            \<and> trace s' = trace s @ Console Out (Searching t) # evs
                 @ Console Err (ErrorProcessing t e) # tail
            \<and> aftermath env t (fs s) (fs s') tail))"
proof -
  define s0 where "s0 = emit (Console Out (Searching t)) s"
  from assms have run: "tryCatch (try_part env t) (catch_part env t) s0 = (r, s')"
    unfolding searchAndCapture_parts s0_def by (simp add: andThen_def log_def)
  have s0: "trace s0 = trace s @ [Console Out (Searching t)]" "fs s0 = fs s"
    "browser s0 = browser s" "page s0 = page s"
    by (simp_all add: s0_def)
  obtain r1 s1 where tp: "try_part env t s0 = (r1, s1)"
    by (cases "try_part env t s0")
  show ?thesis
  proof (cases r1)
    case (Inr x)
    with run tp have r: "r = Inr x" "s' = s1"
      by (simp_all add: tryCatch_def)
    from try_part_ok [OF tp [unfolded Inr s0_def]] r show ?thesis
      by simp
  next
    case (Inl e)
    with run tp have handler: "catch_part env t e s1 = (r, s')"
      by (simp add: tryCatch_def)
    from try_part_fails [OF tp [unfolded Inl]] obtain evs where
      evs: "fs s1 = fs s0" "browser s1 = browser s0" "page s1 = page s0"
        "trace s1 = trace s0 @ evs" "list_all plain evs"
      by blast
    from catch_part_result [OF handler] have
      res: "r = Inr None" "browser s' = browser s1" "page s' = page s1"
      and tails: "\<exists>tail. trace s' = trace s1 @ Console Err (ErrorProcessing t e) # tail
                  \<and> aftermath env t (fs s1) (fs s') tail"
      unfolding aftermath_def by auto
    from tails obtain tail where
      tail: "trace s' = trace s1 @ Console Err (ErrorProcessing t e) # tail"
        "aftermath env t (fs s1) (fs s') tail"
      by blast
    have "trace s' = trace s @ Console Out (Searching t) # evs
            @ Console Err (ErrorProcessing t e) # tail"
      using tail(1) evs(4) s0(1) by simp
    with res evs s0 tail(2) show ?thesis
      by auto
  qed
qed

lemma since_append: "trace s' = trace s @ evs \<Longrightarrow> since s s' = evs"
  by (simp add: since_def)

lemma calls_of_append: "calls_of (xs @ ys) = calls_of xs @ calls_of ys"
  by (induction xs rule: calls_of.induct) simp_all

lemma search_calls:
  "calls_of (search_events t) =
   [Goto (lit ''https://www.wikipedia.org''),
    Fill (lit ''input[name=search]'') t,
    Press (lit ''Enter''),
    WaitForSelector (lit ''#mw-content-text a'') (Some 10000),
    Click (lit ''#mw-content-text a''),
    WaitForLoadState (lit ''networkidle'')]"
  by (simp add: search_events_def)

lemma scroll_calls:
  "calls_of (scroll_events url) =
   [Wheel 0 1500, WaitForTimeout 800, Wheel 0 1500, WaitForTimeout 800,
    Wheel 0 1000, WaitForTimeout 500]"
  by (simp add: scroll_events_def)

lemma error_shots_append: "error_shots (xs @ ys) = error_shots xs @ error_shots ys"
  by (induction xs rule: error_shots.induct) simp_all

lemma plain_error_shots: "list_all plain evs \<Longrightarrow> error_shots evs = []"
  by (induction evs rule: error_shots.induct) (simp_all add: plain_def page_step_def)

lemma good_capture:
  assumes "searchAndCapture env t s = (Inr (Some p), s')"
  shows "p = capture_path env t s \<and> error_shots (since s s') = []
     \<and> trace s' = capture_history env t s
               @ [Called (Screenshot p True) None,
                  Console Out (ScreenshotSaved (filename t (capture_date env t s)))]
     \<and> fs s' = (fs s)(p \<mapsto> File (image env (capture_history env t s)))
     \<and> page s \<and> page s'"
proof -
  from capture_cases [OF assms] have
    p: "p = capture_path env t s"
    and tr: "trace s' = capture_history env t s
               @ [Called (Screenshot (capture_path env t s) True) None,
                  Console Out (ScreenshotSaved (filename t (capture_date env t s)))]"
    and rest: "fs s' = (fs s)(capture_path env t s \<mapsto> File (image env (capture_history env t s)))"
      "page s" "page s' = page s"
    by auto
  from tr have "since s s' = search_events t
        @ scroll_events (page_url env (trace s @ search_events t))
        @ [Called (Screenshot p True) None,
           Console Out (ScreenshotSaved (filename t (capture_date env t s)))]"
    unfolding p by (intro since_append) (simp add: capture_history_def)
  then have "error_shots (since s s') = []"
    by (simp add: search_events_def scroll_events_def)
  with p tr rest show ?thesis
    by simp
qed

lemma rejections_append: "rejections (xs @ ys) = rejections xs @ rejections ys"
  by (induction xs rule: rejections.induct) simp_all

lemma reported_append: "reported (xs @ ys) = reported xs @ reported ys"
  by (induction xs rule: reported.induct) simp_all

lemma plain_reported: "list_all plain evs \<Longrightarrow> reported evs = []"
  by (induction evs rule: reported.induct) (simp_all add: plain_def)

lemma fallback_history_eq: "trace s' = h @ [a, b] \<Longrightarrow> fallback_history s' = h"
  by (simp add: fallback_history_def)

lemma succeeds_run:
  assumes "steps_succeed env t s"
  shows "fst (searchAndCapture env t s) = Inr (Some (capture_path env t s))"
proof -
  have "\<exists>s'. searchAndCapture env t s = (Inr (Some (capture_path env t s)), s')"
    using assms
    unfolding steps_succeed_def searchAndCapture_def capture_path_def capture_date_def
      capture_history_def search_events_def scroll_events_def
    by (simp add: went_well)
  then show ?thesis by auto
qed

lemma run_succeeds:
  assumes "searchAndCapture env t s = (Inr (Some p), s')"
  shows "steps_succeed env t s"
  using assms
  unfolding steps_succeed_def searchAndCapture_def capture_path_def capture_date_def
    capture_history_def search_events_def scroll_events_def
  by (auto simp: went_well)

lemma fails_run:
  assumes "\<not> steps_succeed env t s"
  shows "fst (searchAndCapture env t s) = Inr None"
proof -
  obtain r s' where run: "searchAndCapture env t s = (r, s')"
    by (cases "searchAndCapture env t s")
  from capture_cases [OF run] consider "r = Inr (Some (capture_path env t s))" | "r = Inr None"
    by auto
  then show ?thesis
  proof cases
    case 1
    from run_succeeds [OF run [unfolded 1]] assms show ?thesis by simp
  next
    case 2
    with run show ?thesis by simp
  qed
qed

lemma faithful_ret: "faithful (ret x)"
  by (simp add: faithful_def ret_eq)

lemma faithful_log: "faithful (log ch m)"
  by (simp add: faithful_def log_eq)

lemma faithful_new_Date: "faithful (new_Date env)"
  by (simp add: faithful_def new_Date_eq)

lemma faithful_current_url: "faithful (current_url env)"
  by (auto simp: faithful_def current_url_def on_page_def)

lemma faithful_page_call: "faithful (page_call env c)"
  unfolding faithful_def
proof (intro allI impI)
  fix s r s'
  assume run: "page_call env c s = (r, s')"
  show "page s' = page s
        \<and> (\<exists>evs. trace s' = trace s @ evs
             \<and> (case r of
                   Inr x \<Rightarrow> rejections evs = []
                 | Inl e \<Rightarrow> rejections evs = (if page s then [e] else [])
                            \<and> (\<not> page s \<longrightarrow> e = TypeError)))"
  proof (cases r)
    case (Inl e)
    with run show ?thesis by (auto simp: page_call_Inl')
  next
    case (Inr u)
    with run show ?thesis by (auto simp: page_call_Inr)
  qed
qed

lemma faithful_screenshot: "faithful (screenshot env p full)"
  unfolding faithful_def
proof (intro allI impI)
  fix s r s'
  assume run: "screenshot env p full s = (r, s')"
  show "page s' = page s
        \<and> (\<exists>evs. trace s' = trace s @ evs
             \<and> (case r of
                   Inr x \<Rightarrow> rejections evs = []
                 | Inl e \<Rightarrow> rejections evs = (if page s then [e] else [])
                            \<and> (\<not> page s \<longrightarrow> e = TypeError)))"
  proof (cases r)
    case (Inl e)
    with run show ?thesis by (auto simp: screenshot_Inl')
  next
    case (Inr u)
    with run show ?thesis by (auto simp: screenshot_Inr)
  qed
qed

lemma faithful_andThen:
  assumes "faithful m" and "\<And>x. faithful (f x)"
  shows "faithful (andThen m f)"
  unfolding faithful_def
proof (intro allI impI)
  fix s r s'
  assume run: "andThen m f s = (r, s')"
  obtain r1 s1 where m: "m s = (r1, s1)" by (cases "m s")
  from assms(1) m obtain evs1 where
    1: "page s1 = page s" "trace s1 = trace s @ evs1"
       "case r1 of Inr x \<Rightarrow> rejections evs1 = []
        | Inl e \<Rightarrow> rejections evs1 = (if page s then [e] else []) \<and> (\<not> page s \<longrightarrow> e = TypeError)"
    unfolding faithful_def by blast
  show "page s' = page s
        \<and> (\<exists>evs. trace s' = trace s @ evs
             \<and> (case r of
                   Inr x \<Rightarrow> rejections evs = []
                 | Inl e \<Rightarrow> rejections evs = (if page s then [e] else [])
                            \<and> (\<not> page s \<longrightarrow> e = TypeError)))"
  proof (cases r1)
    case (Inl e)
    with run m have "s' = s1" "r = Inl e" by (simp_all add: andThen_def)
    with 1 Inl show ?thesis by auto
  next
    case (Inr x)
    with run m have "f x s1 = (r, s')" by (simp add: andThen_def)
    with assms(2) [of x] obtain evs2 where
      2: "page s' = page s1" "trace s' = trace s1 @ evs2"
         "case r of Inr x \<Rightarrow> rejections evs2 = []
          | Inl e \<Rightarrow> rejections evs2 = (if page s1 then [e] else []) \<and> (\<not> page s1 \<longrightarrow> e = TypeError)"
      unfolding faithful_def by blast
    from 1 Inr have r1: "rejections evs1 = []" by simp
    have tr: "trace s' = trace s @ (evs1 @ evs2)"
      using 1 2 by simp
    have "case r of Inr x \<Rightarrow> rejections (evs1 @ evs2) = []
          | Inl e \<Rightarrow> rejections (evs1 @ evs2) = (if page s then [e] else [])
                     \<and> (\<not> page s \<longrightarrow> e = TypeError)"
      using 2(3) r1 1(1) by (simp add: rejections_append split: sum.splits)
    with tr 1(1) 2(1) show ?thesis
      by (intro conjI exI [of _ "evs1 @ evs2"]) simp_all
  qed
qed

lemma faithful_block_Nil: "faithful (block [])"
  by (simp add: faithful_ret)

lemma faithful_block_Cons: "faithful m \<Longrightarrow> faithful (block ms) \<Longrightarrow> faithful (block (m # ms))"
  by (simp add: faithful_andThen)

lemmas faithful_intros = faithful_andThen faithful_block_Cons faithful_block_Nil faithful_ret
  faithful_log faithful_new_Date faithful_current_url faithful_page_call faithful_screenshot

lemma try_part_faithful: "faithful (try_part env t)"
  unfolding try_part_def by (intro faithful_intros)

lemma try_part_blames:
  assumes "try_part env t s = (Inl e, s')"
  shows "\<exists>evs. trace s' = trace s @ evs \<and> rejections evs = (if page s then [e] else [])
           \<and> (\<not> page s \<longrightarrow> e = TypeError)"
proof -
  from try_part_faithful [of env t] assms
  have "\<exists>evs. trace s' = trace s @ evs
          \<and> (case (Inl e :: error + jsstring option) of
                Inr x \<Rightarrow> rejections evs = []
              | Inl e \<Rightarrow> rejections evs = (if page s then [e] else [])
                         \<and> (\<not> page s \<longrightarrow> e = TypeError))"
    unfolding faithful_def by blast
  then show ?thesis by simp
qed

lemma catch_part_outcome:
  assumes "catch_part env t e s = (r, s')"
  shows "r = Inr None \<and> page s' = page s \<and> browser s' = browser s
     \<and> (page s
          \<and> respond env (trace s @ [Console Err (ErrorProcessing t e)])
                (Screenshot (path_join (out_dir env) (errorFilename t)) False) = None
          \<and> fs s (path_join (out_dir env) (errorFilename t)) \<noteq> Some Dir
          \<and> trace s' = trace s @
               [Console Err (ErrorProcessing t e),
                Called (Screenshot (path_join (out_dir env) (errorFilename t)) False) None,
                Console Out (ErrorScreenshotSaved (errorFilename t))]
          \<and> fs s' = (fs s)(path_join (out_dir env) (errorFilename t) \<mapsto>
                       File (image env (trace s @ [Console Err (ErrorProcessing t e)])))
        \<or> \<not> (page s
              \<and> respond env (trace s @ [Console Err (ErrorProcessing t e)])
                    (Screenshot (path_join (out_dir env) (errorFilename t)) False) = None
              \<and> fs s (path_join (out_dir env) (errorFilename t)) \<noteq> Some Dir)
          \<and> fs s' = fs s
          \<and> (trace s' = trace s @
                [Console Err (ErrorProcessing t e), Console Out CouldNotTakeErrorScreenshot]
             \<or> (\<exists>e'. trace s' = trace s @
                   [Console Err (ErrorProcessing t e),
                    Called (Screenshot (path_join (out_dir env) (errorFilename t)) False) (Some e'),
                    Console Out CouldNotTakeErrorScreenshot])))"
proof (cases r)
  case (Inl e')
  with assms have False
    unfolding catch_part_def
    by (auto simp: andThen_Inl block_Cons_Inl tryCatch_Inl went_well)
  then show ?thesis ..
next
  case (Inr x)
  with assms show ?thesis
    unfolding catch_part_def
    by (auto simp: went_well andThen_Inl block_Cons_Inl screenshot_Inl')
qed

lemma capture_failure:
  assumes "searchAndCapture env t s = (Inr None, s')"
  shows "\<exists>evs e h.
      h = trace s @ Console Out (Searching t) # evs @ [Console Err (ErrorProcessing t e)]
      \<and> list_all plain evs
      \<and> rejections evs = (if page s then [e] else []) \<and> (\<not> page s \<longrightarrow> e = TypeError)
      \<and> page s' = page s
      \<and> (page s
          \<and> respond env h (Screenshot (path_join (out_dir env) (errorFilename t)) False) = None
          \<and> fs s (path_join (out_dir env) (errorFilename t)) \<noteq> Some Dir
          \<and> trace s' = h @
               [Called (Screenshot (path_join (out_dir env) (errorFilename t)) False) None,
                Console Out (ErrorScreenshotSaved (errorFilename t))]
          \<and> fs s' = (fs s)(path_join (out_dir env) (errorFilename t) \<mapsto> File (image env h))
        \<or> \<not> (page s
              \<and> respond env h (Screenshot (path_join (out_dir env) (errorFilename t)) False) = None
              \<and> fs s (path_join (out_dir env) (errorFilename t)) \<noteq> Some Dir)
          \<and> fs s' = fs s
          \<and> (trace s' = h @ [Console Out CouldNotTakeErrorScreenshot]
             \<or> (\<exists>e'. trace s' = h @
                   [Called (Screenshot (path_join (out_dir env) (errorFilename t)) False) (Some e'),
                    Console Out CouldNotTakeErrorScreenshot])))"
proof -
  define s0 where "s0 = emit (Console Out (Searching t)) s"
  from assms have run: "tryCatch (try_part env t) (catch_part env t) s0 = (Inr None, s')"
    unfolding searchAndCapture_parts s0_def by (simp add: andThen_def log_def)
  have s0: "trace s0 = trace s @ [Console Out (Searching t)]" "fs s0 = fs s" "page s0 = page s"
    by (simp_all add: s0_def)
  obtain r1 s1 where tp: "try_part env t s0 = (r1, s1)"
    by (cases "try_part env t s0")
  show ?thesis
  proof (cases r1)
    case (Inr x)
    with run tp have "x = None"
      by (simp add: tryCatch_def)
    with try_part_ok [OF tp [unfolded Inr s0_def]] have False
      by simp
    then show ?thesis ..
  next
    case (Inl e)
    with run tp have handler: "catch_part env t e s1 = (Inr None, s')"
      by (simp add: tryCatch_def)
    from try_part_fails [OF tp [unfolded Inl]] obtain evs where
      evs: "fs s1 = fs s0" "page s1 = page s0" "trace s1 = trace s0 @ evs" "list_all plain evs"
      by blast
    from try_part_blames [OF tp [unfolded Inl]] obtain evs' where
      evs': "trace s1 = trace s0 @ evs'" "rejections evs' = (if page s0 then [e] else [])"
        "\<not> page s0 \<longrightarrow> e = TypeError"
      by blast
    from evs(3) evs'(1) have same: "evs' = evs"
      by simp
    define h where "h = trace s @ Console Out (Searching t) # evs @ [Console Err (ErrorProcessing t e)]"
    have h: "trace s1 @ [Console Err (ErrorProcessing t e)] = h"
      by (simp add: h_def evs(3) s0(1))
    have tails: "trace s1 @ Console Err (ErrorProcessing t e) # xs = h @ xs" for xs
      by (simp add: h_def evs(3) s0(1))
    from catch_part_outcome [OF handler]
    have out: "page s' = page s1
      \<and> (page s1
          \<and> respond env h (Screenshot (path_join (out_dir env) (errorFilename t)) False) = None
          \<and> fs s1 (path_join (out_dir env) (errorFilename t)) \<noteq> Some Dir
          \<and> trace s' = h @
               [Called (Screenshot (path_join (out_dir env) (errorFilename t)) False) None,
                Console Out (ErrorScreenshotSaved (errorFilename t))]
          \<and> fs s' = (fs s1)(path_join (out_dir env) (errorFilename t) \<mapsto> File (image env h))
        \<or> \<not> (page s1
              \<and> respond env h (Screenshot (path_join (out_dir env) (errorFilename t)) False) = None
              \<and> fs s1 (path_join (out_dir env) (errorFilename t)) \<noteq> Some Dir)
          \<and> fs s' = fs s1
          \<and> (trace s' = h @ [Console Out CouldNotTakeErrorScreenshot]
             \<or> (\<exists>e'. trace s' = h @
                   [Called (Screenshot (path_join (out_dir env) (errorFilename t)) False) (Some e'),
                    Console Out CouldNotTakeErrorScreenshot])))"
      unfolding tails append_Nil2 by blast
    have st: "fs s1 = fs s" "page s1 = page s"
      using evs s0 by simp_all
    from evs' same s0 have rej: "rejections evs = (if page s then [e] else [])"
      "\<not> page s \<longrightarrow> e = TypeError"
      by simp_all
    show ?thesis
      apply (rule exI [of _ evs], rule exI [of _ e], rule exI [of _ h])
      using out rej evs(4) unfolding st
      by (simp add: h_def)
  qed
qed

lemma failure_report:
  assumes "searchAndCapture env t s = (Inr None, s')"
  shows "reported (since s s') = [(t, if page s then hd (rejections (since s s')) else TypeError)]"
proof -
  from capture_failure [OF assms] obtain evs e h where
    h: "h = trace s @ Console Out (Searching t) # evs @ [Console Err (ErrorProcessing t e)]"
    and pl: "list_all plain evs"
    and rej: "rejections evs = (if page s then [e] else [])" "\<not> page s \<longrightarrow> e = TypeError"
    and tr: "trace s' = h @
               [Called (Screenshot (path_join (out_dir env) (errorFilename t)) False) None,
                Console Out (ErrorScreenshotSaved (errorFilename t))]
        \<or> trace s' = h @ [Console Out CouldNotTakeErrorScreenshot]
        \<or> (\<exists>e'. trace s' = h @
                   [Called (Screenshot (path_join (out_dir env) (errorFilename t)) False) (Some e'),
                    Console Out CouldNotTakeErrorScreenshot])"
    by blast
  from tr obtain tail where
    tail: "trace s' = h @ tail" "reported tail = []"
    by auto
  have si: "since s s' = Console Out (Searching t) # evs @ Console Err (ErrorProcessing t e) # tail"
    by (rule since_append) (simp add: tail(1) h)
  have 1: "reported (since s s') = [(t, e)]"
    unfolding si using pl tail(2) by (simp add: reported_append plain_reported)
  have 2: "page s \<Longrightarrow> hd (rejections (since s s')) = e"
    unfolding si using rej(1) by (simp add: rejections_append)
  from 1 2 rej(2) show ?thesis
    by simp
qed

lemma failure_shot:
  assumes "searchAndCapture env t s = (Inr None, s')"
  shows "page s' = page s
     \<and> (error_shots (since s s') = [path_join (out_dir env) (errorFilename t)]
          \<and> fs s' = (fs s)(path_join (out_dir env) (errorFilename t) \<mapsto>
                       File (image env (fallback_history s')))
          \<and> last (trace s') = Console Out (ErrorScreenshotSaved (errorFilename t))
        \<or> error_shots (since s s') = [] \<and> fs s' = fs s
          \<and> last (trace s') = Console Out CouldNotTakeErrorScreenshot)"
proof -
  from capture_failure [OF assms] obtain evs e h where
    h: "h = trace s @ Console Out (Searching t) # evs @ [Console Err (ErrorProcessing t e)]"
    and pl: "list_all plain evs"
    and pg: "page s' = page s"
    and cases: "trace s' = h @
               [Called (Screenshot (path_join (out_dir env) (errorFilename t)) False) None,
                Console Out (ErrorScreenshotSaved (errorFilename t))]
          \<and> fs s' = (fs s)(path_join (out_dir env) (errorFilename t) \<mapsto> File (image env h))
        \<or> fs s' = fs s
          \<and> (trace s' = h @ [Console Out CouldNotTakeErrorScreenshot]
             \<or> (\<exists>e'. trace s' = h @
                   [Called (Screenshot (path_join (out_dir env) (errorFilename t)) False) (Some e'),
                    Console Out CouldNotTakeErrorScreenshot]))"
    by blast
  have si: "since s s' = Console Out (Searching t) # evs @ Console Err (ErrorProcessing t e) # tail"
    if "trace s' = h @ tail" for tail
    by (rule since_append) (simp add: that h)
  from cases show ?thesis
  proof (elim disjE conjE exE)
    assume tr: "trace s' = h @
               [Called (Screenshot (path_join (out_dir env) (errorFilename t)) False) None,
                Console Out (ErrorScreenshotSaved (errorFilename t))]"
      and files: "fs s' = (fs s)(path_join (out_dir env) (errorFilename t) \<mapsto> File (image env h))"
    have "error_shots (since s s') = [path_join (out_dir env) (errorFilename t)]"
      unfolding si [OF tr] using pl by (simp add: error_shots_append plain_error_shots)
    moreover have "fallback_history s' = h"
      using tr by (rule fallback_history_eq)
    moreover have "last (trace s') = Console Out (ErrorScreenshotSaved (errorFilename t))"
      unfolding tr by simp
    ultimately show ?thesis
      using pg files by simp
  next
    assume tr: "trace s' = h @ [Console Out CouldNotTakeErrorScreenshot]"
      and files: "fs s' = fs s"
    have "error_shots (since s s') = []"
      unfolding si [OF tr] using pl by (simp add: error_shots_append plain_error_shots)
    moreover have "last (trace s') = Console Out CouldNotTakeErrorScreenshot"
      unfolding tr by simp
    ultimately show ?thesis
      using pg files by simp
  next
    fix e'
    assume tr: "trace s' = h @
                   [Called (Screenshot (path_join (out_dir env) (errorFilename t)) False) (Some e'),
                    Console Out CouldNotTakeErrorScreenshot]"
      and files: "fs s' = fs s"
    have "error_shots (since s s') = []"
      unfolding si [OF tr] using pl by (simp add: error_shots_append plain_error_shots)
    moreover have "last (trace s') = Console Out CouldNotTakeErrorScreenshot"
      unfolding tr by simp
    ultimately show ?thesis
      using pg files by simp
  qed
qed

lemma failure_shot_taken:
  assumes "searchAndCapture env t s = (Inr None, s')"
    and "page s"
    and "\<forall>h. respond env h (Screenshot (path_join (out_dir env) (errorFilename t)) False) = None"
    and "fs s (path_join (out_dir env) (errorFilename t)) \<noteq> Some Dir"
  shows "error_shots (since s s') = [path_join (out_dir env) (errorFilename t)]
     \<and> fs s' = (fs s)(path_join (out_dir env) (errorFilename t) \<mapsto>
                  File (image env (fallback_history s')))
     \<and> page s'"
proof -
  from capture_failure [OF assms(1)] assms(2-4) obtain evs e h where
    h: "h = trace s @ Console Out (Searching t) # evs @ [Console Err (ErrorProcessing t e)]"
    and pl: "list_all plain evs"
    and pg: "page s' = page s"
    and tr: "trace s' = h @
               [Called (Screenshot (path_join (out_dir env) (errorFilename t)) False) None,
                Console Out (ErrorScreenshotSaved (errorFilename t))]"
    and files: "fs s' = (fs s)(path_join (out_dir env) (errorFilename t) \<mapsto> File (image env h))"
    by blast
  have "since s s' = Console Out (Searching t) # evs @ Console Err (ErrorProcessing t e) #
               [Called (Screenshot (path_join (out_dir env) (errorFilename t)) False) None,
                Console Out (ErrorScreenshotSaved (errorFilename t))]"
    by (rule since_append) (simp add: tr h)
  then have "error_shots (since s s') = [path_join (out_dir env) (errorFilename t)]"
    using pl by (simp add: error_shots_append plain_error_shots)
  moreover have "fallback_history s' = h"
    using tr by (rule fallback_history_eq)
  ultimately show ?thesis
    using pg files assms(2) by simp
qed

lemma success_summary:
  assumes "steps_succeed env t s"
  shows "fst (searchAndCapture env t s) = Inr (Some (capture_path env t s))
     \<and> since s (snd (searchAndCapture env t s)) =
         search_events t @ scroll_events (page_url env (trace s @ search_events t))
         @ [Called (Screenshot (capture_path env t s) True) None,
            Console Out (ScreenshotSaved (filename t (capture_date env t s)))]
     \<and> fs (snd (searchAndCapture env t s))
         = (fs s)(capture_path env t s \<mapsto> File (image env (capture_history env t s)))"
proof -
  obtain r s' where run: "searchAndCapture env t s = (r, s')"
    by (cases "searchAndCapture env t s")
  from succeeds_run [OF assms] run have r: "r = Inr (Some (capture_path env t s))"
    by simp
  note g = good_capture [OF run [unfolded r]]
  from g have "since s s' = search_events t
        @ scroll_events (page_url env (trace s @ search_events t))
        @ [Called (Screenshot (capture_path env t s) True) None,
           Console Out (ScreenshotSaved (filename t (capture_date env t s)))]"
    by (intro since_append) (simp add: capture_history_def)
  with g r show ?thesis
    unfolding run by simp
qed

lemma failure_summary:
  assumes "\<not> steps_succeed env t s"
  shows "searchAndCapture env t s = (Inr None, snd (searchAndCapture env t s))"
  using fails_run [OF assms] by (cases "searchAndCapture env t s") simp

lemma boxing_path:
  "path_join (lit ''/home/u/snapshots'') (filename (lit ''Boxing'') today)
     = lit ''/home/u/snapshots/boxing_2026-11-03.png''"
  by code_simp

lemma calm_path: "capture_path calm (lit ''Boxing'') s = lit ''/home/u/snapshots/boxing_2026-11-03.png''"
proof -
  have "capture_date calm (lit ''Boxing'') s = today"
    by (simp add: capture_date_def calm_def today_def)
  moreover have "out_dir calm = lit ''/home/u/snapshots''"
    by (simp add: calm_def)
  ultimately show ?thesis
    unfolding capture_path_def by (simp only: boxing_path)
qed

lemma calm_succeeds: "steps_succeed calm t ready"
  by (simp add: steps_succeed_def search_events_def scroll_events_def calm_def ready_def)

lemma offline_stops: "\<not> steps_succeed offline t s"
  by (simp add: steps_succeed_def search_events_def offline_def calm_def)

lemma offline_capture:
  "searchAndCapture offline t ready =
     (Inr None,
      ready\<lparr>trace :=
              [Console Out (Searching t),
               Called (Goto (lit ''https://www.wikipedia.org'')) (Some (Failure 1)),
               Console Err (ErrorProcessing t (Failure 1)),
               Called (Screenshot (path_join (lit ''/home/u/snapshots'') (errorFilename t)) False) None,
               Console Out (ErrorScreenshotSaved (errorFilename t))],
            fs := [path_join (lit ''/home/u/snapshots'') (errorFilename t) \<mapsto> File [137, 80, 78, 71]]\<rparr>)"
  by (simp add: searchAndCapture_def andThen_def tryCatch_def ret_def log_def page_call_def
      screenshot_def on_page_def external_def take_screenshot_def failed_def done_call_def
      emit_def offline_def calm_def ready_def)

text \<open>
  C1. For every term, every environment and every state of the object,
  \<^verbatim>\<open>searchAndCapture\<close> returns normally. When the steps succeed (the page is there, the
  environment accepts every call up to the screenshot, and the picture can be written)
  it returns the path of the picture, the output directory joined with the file name,
  with no call rejected, nothing reported, and the full-page screenshot to that path as
  its last call. When they do not, it returns \<^verbatim>\<open>null\<close> and has reported exactly one error
  for the term on the error console: the error of the first rejected call, or the
  \<open>TypeError\<close> of a call on a page that is \<^verbatim>\<open>null\<close>.
\<close>

theorem searchAndCapture_never_raises:
  "(steps_succeed env searchTerm s \<longrightarrow>
      fst (searchAndCapture env searchTerm s) = Inr (Some (capture_path env searchTerm s))
      \<and> rejections (since s (snd (searchAndCapture env searchTerm s))) = []
      \<and> reported (since s (snd (searchAndCapture env searchTerm s))) = []
      \<and> last (calls_of (since s (snd (searchAndCapture env searchTerm s))))
          = Screenshot (capture_path env searchTerm s) True)
   \<and> (\<not> steps_succeed env searchTerm s \<longrightarrow>
      fst (searchAndCapture env searchTerm s) = Inr None
      \<and> reported (since s (snd (searchAndCapture env searchTerm s)))
          = [(searchTerm,
              if page s then hd (rejections (since s (snd (searchAndCapture env searchTerm s))))
              else TypeError)])"
proof (intro conjI impI)
  assume ok: "steps_succeed env searchTerm s"
  note sm = success_summary [OF ok]
  from sm show "fst (searchAndCapture env searchTerm s) = Inr (Some (capture_path env searchTerm s))"
    by simp
  from sm have si: "since s (snd (searchAndCapture env searchTerm s)) =
         search_events searchTerm
         @ scroll_events (page_url env (trace s @ search_events searchTerm))
         @ [Called (Screenshot (capture_path env searchTerm s) True) None,
            Console Out (ScreenshotSaved (filename searchTerm (capture_date env searchTerm s)))]"
    by simp
  show "rejections (since s (snd (searchAndCapture env searchTerm s))) = []"
    unfolding si by (simp add: search_events_def scroll_events_def)
  show "reported (since s (snd (searchAndCapture env searchTerm s))) = []"
    unfolding si by (simp add: search_events_def scroll_events_def)
  show "last (calls_of (since s (snd (searchAndCapture env searchTerm s))))
          = Screenshot (capture_path env searchTerm s) True"
    unfolding si by (simp add: calls_of_append search_calls scroll_calls)
next
  assume no: "\<not> steps_succeed env searchTerm s"
  from fails_run [OF no] show "fst (searchAndCapture env searchTerm s) = Inr None" .
  from failure_report [OF failure_summary [OF no]]
  show "reported (since s (snd (searchAndCapture env searchTerm s)))
          = [(searchTerm,
              if page s then hd (rejections (since s (snd (searchAndCapture env searchTerm s))))
              else TypeError)]" .
qed

theorem searchAndCapture_never_raises_witness:
  "steps_succeed calm (lit ''Boxing'') ready
   \<and> fst (searchAndCapture calm (lit ''Boxing'') ready)
       = Inr (Some (lit ''/home/u/snapshots/boxing_2026-11-03.png''))
   \<and> \<not> steps_succeed offline (lit ''Boxing'') ready
   \<and> fst (searchAndCapture offline (lit ''Boxing'') ready) = Inr None
   \<and> reported (since ready (snd (searchAndCapture offline (lit ''Boxing'') ready)))
       = [(lit ''Boxing'', Failure 1)]"
proof -
  note ok = calm_succeeds [of "lit ''Boxing''"] and no = offline_stops [of "lit ''Boxing''" ready]
  note w1 = searchAndCapture_never_raises [of calm "lit ''Boxing''" ready]
    and w2 = searchAndCapture_never_raises [of offline "lit ''Boxing''" ready]
  from w1 ok have "fst (searchAndCapture calm (lit ''Boxing'') ready)
      = Inr (Some (capture_path calm (lit ''Boxing'') ready))"
    by blast
  then have a: "fst (searchAndCapture calm (lit ''Boxing'') ready)
      = Inr (Some (lit ''/home/u/snapshots/boxing_2026-11-03.png''))"
    unfolding calm_path .
  from w2 no have b: "fst (searchAndCapture offline (lit ''Boxing'') ready) = Inr None"
    and r: "reported (since ready (snd (searchAndCapture offline (lit ''Boxing'') ready)))
          = [(lit ''Boxing'',
              if page ready
              then hd (rejections (since ready (snd (searchAndCapture offline (lit ''Boxing'') ready))))
              else TypeError)]"
    by blast+
  have "hd (rejections (since ready (snd (searchAndCapture offline (lit ''Boxing'') ready))))
      = Failure 1"
    unfolding offline_capture by (simp add: since_def ready_def)
  moreover have "page ready"
    by (simp add: ready_def)
  ultimately have c: "reported (since ready (snd (searchAndCapture offline (lit ''Boxing'') ready)))
       = [(lit ''Boxing'', Failure 1)]"
    using r by simp
  show ?thesis
    using ok a no b c by (intro conjI)
qed

section \<open>Scrolling\<close>

lemma take_screenshot_Inr:
  "(take_screenshot env p full s = (Inr u, s')) =
     (respond env (trace s) (Screenshot p full) = None \<and> fs s p \<noteq> Some Dir \<and>
      s' = emit (Called (Screenshot p full) None)
             (s\<lparr>fs := (fs s)(p \<mapsto> File (image env (trace s)))\<rparr>))"
  by (auto simp: take_screenshot_def failed_def done_call_def split: option.splits)

lemma capture_runs:
  assumes "page s" and "\<forall>h c. respond env h c = None"
    and "fs s (capture_path env t s) \<noteq> Some Dir"
  shows "fst (searchAndCapture env t s) = Inr (Some (capture_path env t s))"
proof -
  have "\<exists>s'. searchAndCapture env t s = (Inr (Some (capture_path env t s)), s')"
    using assms
    unfolding searchAndCapture_def capture_path_def capture_date_def capture_history_def
      search_events_def scroll_events_def
    by (simp add: went_well)
  then show ?thesis by auto
qed

lemma capture_scrolls:
  assumes "fst (searchAndCapture env t s) = Inr (Some p)"
  shows "scrolls (since s (snd (searchAndCapture env t s))) = [1500, 1500, 1000]
     \<and> calls_of (since s (snd (searchAndCapture env t s))) =
         [Goto (lit ''https://www.wikipedia.org''),
          Fill (lit ''input[name=search]'') t,
          Press (lit ''Enter''),
          WaitForSelector (lit ''#mw-content-text a'') (Some 10000),
          Click (lit ''#mw-content-text a''),
          WaitForLoadState (lit ''networkidle''),
          Wheel 0 1500, WaitForTimeout 800, Wheel 0 1500, WaitForTimeout 800,
          Wheel 0 1000, WaitForTimeout 500,
          Screenshot p True]"
proof -
  obtain r s' where run: "searchAndCapture env t s = (r, s')"
    by (cases "searchAndCapture env t s")
  with assms have r: "r = Inr (Some p)" by simp
  from capture_cases [OF run] r have
    p: "p = capture_path env t s"
    and tr: "trace s' = capture_history env t s
               @ [Called (Screenshot (capture_path env t s) True) None,
                  Console Out (ScreenshotSaved (filename t (capture_date env t s)))]"
    by auto
  from tr have "since s s' = search_events t
        @ scroll_events (page_url env (trace s @ search_events t))
        @ [Called (Screenshot p True) None,
           Console Out (ScreenshotSaved (filename t (capture_date env t s)))]"
    unfolding p by (intro since_append) (simp add: capture_history_def)
  then show ?thesis
    unfolding run by (simp add: search_events_def scroll_events_def)
qed

lemma part_000_scrolls:
  assumes "fst (main_part_000 env s) = Inr ()"
  shows "since s (snd (main_part_000 env s)) = part_000_events env"
proof -
  obtain r s' where run: "main_part_000 env s = (r, s')"
    by (cases "main_part_000 env s")
  with assms have "main_part_000 env s = (Inr (), s')" by simp
  then have "trace s' = trace s @ part_000_events env"
    unfolding main_part_000_def part_000_events_def
    by (auto simp: went_well external_Inr take_screenshot_Inr)
  then show ?thesis
    unfolding run by (simp add: since_append)
qed

lemma part_000_runs:
  assumes "\<forall>h c. respond env h c = None"
    and "fs s (path_join (out_dir env) (lit ''info.png'')) \<noteq> Some Dir"
  shows "fst (main_part_000 env s) = Inr ()"
proof -
  have "\<exists>s'. main_part_000 env s = (Inr (), s')"
    using assms unfolding main_part_000_def
    by (simp add: went_well external_Inr take_screenshot_Inr)
  then show ?thesis by auto
qed

lemma calm_capture:
  "fst (searchAndCapture calm t ready) = Inr (Some (capture_path calm t ready))"
  by (rule capture_runs) (simp_all add: ready_def calm_def)

lemma calm_part_000: "fst (main_part_000 calm ready) = Inr ()"
  by (rule part_000_runs) (simp_all add: ready_def calm_def)

text \<open>
  C6, as amended. A capture of \<^verbatim>\<open>searchAndCapture\<close> that returns a path has made exactly
  three scroll gestures before the screenshot, each followed by a pause (800, 800 and
  500 ms), of amounts 1500, 1500 and 1000: the amounts never grow, and the first two are
  equal. The second script, when all of it succeeds, makes two gestures of 2000, each
  followed by a pause of 1000 ms, before its screenshot.
\<close>

theorem scroll_gestures:
  "(fst (searchAndCapture env t s) = Inr (Some p) \<longrightarrow>
      scrolls (since s (snd (searchAndCapture env t s))) = [1500, 1500, 1000]
      \<and> calls_of (since s (snd (searchAndCapture env t s))) =
         [Goto (lit ''https://www.wikipedia.org''),
          Fill (lit ''input[name=search]'') t,
          Press (lit ''Enter''),
          WaitForSelector (lit ''#mw-content-text a'') (Some 10000),
          Click (lit ''#mw-content-text a''),
          WaitForLoadState (lit ''networkidle''),
          Wheel 0 1500, WaitForTimeout 800, Wheel 0 1500, WaitForTimeout 800,
          Wheel 0 1000, WaitForTimeout 500,
          Screenshot p True])
   \<and> (fst (main_part_000 env s) = Inr () \<longrightarrow>
      scrolls (since s (snd (main_part_000 env s))) = [2000, 2000]
      \<and> calls_of (since s (snd (main_part_000 env s))) =
         [Launch False 500, NewContext, NewPage,
          Goto (lit ''https://www.wikipedia.org''),
          Fill (lit ''input[name=search]'') (lit ''Boxing''),
          Press (lit ''Enter''),
          WaitForSelector (lit ''#mw-content-text a'') None,
          Click (lit ''#mw-content-text a''),
          Wheel 0 2000, WaitForTimeout 1000, Wheel 0 2000, WaitForTimeout 1000,
          Screenshot (path_join (out_dir env) (lit ''info.png'')) True,
          Close])"
proof (intro conjI impI)
  assume "fst (main_part_000 env s) = Inr ()"
  then have ev: "since s (snd (main_part_000 env s)) = part_000_events env"
    by (rule part_000_scrolls)
  show "scrolls (since s (snd (main_part_000 env s))) = [2000, 2000]"
    unfolding ev by (simp add: part_000_events_def)
  show "calls_of (since s (snd (main_part_000 env s))) =
         [Launch False 500, NewContext, NewPage,
          Goto (lit ''https://www.wikipedia.org''),
          Fill (lit ''input[name=search]'') (lit ''Boxing''),
          Press (lit ''Enter''),
          WaitForSelector (lit ''#mw-content-text a'') None,
          Click (lit ''#mw-content-text a''),
          Wheel 0 2000, WaitForTimeout 1000, Wheel 0 2000, WaitForTimeout 1000,
          Screenshot (path_join (out_dir env) (lit ''info.png'')) True,
          Close]"
    unfolding ev by (simp add: part_000_events_def)
qed (simp_all add: capture_scrolls)

theorem scroll_gestures_witness:
  "fst (searchAndCapture calm (lit ''Boxing'') ready)
     = Inr (Some (capture_path calm (lit ''Boxing'') ready))
   \<and> scrolls (since ready (snd (searchAndCapture calm (lit ''Boxing'') ready))) = [1500, 1500, 1000]
   \<and> fst (main_part_000 calm ready) = Inr ()
   \<and> scrolls (since ready (snd (main_part_000 calm ready))) = [2000, 2000]"
  using scroll_gestures [of calm "lit ''Boxing''" ready "capture_path calm (lit ''Boxing'') ready"]
    calm_capture [of "lit ''Boxing''"] calm_part_000
  by simp

text \<open>
  The second script does not make three gestures: when every call succeeds it makes
  two, of 2000 each.
\<close>

theorem part_000_two_gestures_counterexample:
  "fst (main_part_000 calm ready) = Inr ()
   \<and> scrolls (since ready (snd (main_part_000 calm ready))) = [2000, 2000]
   \<and> length (scrolls (since ready (snd (main_part_000 calm ready)))) \<noteq> 3"
  using part_000_scrolls [OF calm_part_000] calm_part_000
  by (simp add: part_000_events_def)

section \<open>Paths and error screenshots\<close>

lemma no_slash_filename: "47 \<notin> set (filename t now)"
proof -
  have a: "47 \<notin> set (sanitizedTerm t)"
    using sanitizedTerm_chars [of t]
    by (auto simp: list_all_iff lower_alnum_us_def is_lower_def is_digit_def)
  have b: "47 \<notin> set (timestamp now)"
    using date_part_chars [of now]
    by (auto simp: timestamp_eq list_all_iff is_digit_def)
  show ?thesis
    using a b by (simp add: filename_def lit_simps)
qed

lemma under_path_join: "47 \<notin> set name \<Longrightarrow> under dir (path_join dir name)"
  by (simp add: under_def path_join_def lit_simps)

lemma extension_path: "extension (path_join dir (filename t now)) = lit ''.png''"
proof -
  have "path_join dir (filename t now)
      = (dir @ lit ''/'' @ sanitizedTerm t @ lit ''_'' @ timestamp now) @ lit ''.png''"
    by (simp add: path_join_def filename_def)
  then show ?thesis
    by (simp only: stem_extension)
qed

lemma error_boxing_path:
  "path_join (lit ''/home/u/snapshots'') (errorFilename (lit ''Boxing''))
     = lit ''/home/u/snapshots/error_boxing.png''"
  by code_simp

lemma blackout_stops: "\<not> steps_succeed blackout t s"
  by (simp add: steps_succeed_def search_events_def blackout_def calm_def)

lemma blackout_capture:
  "searchAndCapture blackout t ready =
     (Inr None,
      ready\<lparr>trace :=
              [Console Out (Searching t),
               Called (Goto (lit ''https://www.wikipedia.org'')) (Some (Failure 1)),
               Console Err (ErrorProcessing t (Failure 1)),
               Called (Screenshot (path_join (lit ''/home/u/snapshots'') (errorFilename t)) False)
                 (Some (Failure 1)),
               Console Out CouldNotTakeErrorScreenshot]\<rparr>)"
  by (simp add: searchAndCapture_def andThen_def tryCatch_def ret_def log_def page_call_def
      screenshot_def on_page_def external_def take_screenshot_def failed_def done_call_def
      emit_def blackout_def calm_def ready_def)

text \<open>
  C5. A capture never raises. One whose steps succeed returns the path of the output
  directory joined with the file name, which ends in \<^verbatim>\<open>.png\<close> and lies directly under
  the output directory; the picture is in the file at that path, and no error screenshot
  is taken. One whose steps do not succeed returns no path, and then one of two things
  has happened: one error screenshot was taken, at the \<^verbatim>\<open>error_\<close> path of the term, the
  file there holds it, and the last line says so; or none was taken, the files are as
  they were, and the last line says that it could not be taken.
\<close>

theorem capture_paths:
  "(steps_succeed env t s \<longrightarrow>
      fst (searchAndCapture env t s) = Inr (Some (capture_path env t s))
      \<and> capture_path env t s = path_join (out_dir env) (filename t (capture_date env t s))
      \<and> extension (capture_path env t s) = lit ''.png''
      \<and> under (out_dir env) (capture_path env t s)
      \<and> fs (snd (searchAndCapture env t s)) (capture_path env t s)
          = Some (File (image env (capture_history env t s)))
      \<and> error_shots (since s (snd (searchAndCapture env t s))) = [])
   \<and> (\<not> steps_succeed env t s \<longrightarrow>
      fst (searchAndCapture env t s) = Inr None
      \<and> (error_shots (since s (snd (searchAndCapture env t s)))
            = [path_join (out_dir env) (errorFilename t)]
          \<and> fs (snd (searchAndCapture env t s))
              = (fs s)(path_join (out_dir env) (errorFilename t) \<mapsto>
                   File (image env (fallback_history (snd (searchAndCapture env t s)))))
          \<and> last (trace (snd (searchAndCapture env t s)))
              = Console Out (ErrorScreenshotSaved (errorFilename t))
        \<or> error_shots (since s (snd (searchAndCapture env t s))) = []
          \<and> fs (snd (searchAndCapture env t s)) = fs s
          \<and> last (trace (snd (searchAndCapture env t s)))
              = Console Out CouldNotTakeErrorScreenshot))"
proof (intro conjI impI)
  assume ok: "steps_succeed env t s"
  note sm = success_summary [OF ok]
  from sm show "fst (searchAndCapture env t s) = Inr (Some (capture_path env t s))"
    by simp
  show "capture_path env t s = path_join (out_dir env) (filename t (capture_date env t s))"
    by (simp add: capture_path_def)
  show "extension (capture_path env t s) = lit ''.png''"
    unfolding capture_path_def by (rule extension_path)
  show "under (out_dir env) (capture_path env t s)"
    unfolding capture_path_def by (rule under_path_join) (rule no_slash_filename)
  from sm show "fs (snd (searchAndCapture env t s)) (capture_path env t s)
          = Some (File (image env (capture_history env t s)))"
    by simp
  from sm have si: "since s (snd (searchAndCapture env t s)) =
         search_events t @ scroll_events (page_url env (trace s @ search_events t))
         @ [Called (Screenshot (capture_path env t s) True) None,
            Console Out (ScreenshotSaved (filename t (capture_date env t s)))]"
    by simp
  show "error_shots (since s (snd (searchAndCapture env t s))) = []"
    unfolding si by (simp add: search_events_def scroll_events_def)
next
  assume no: "\<not> steps_succeed env t s"
  from fails_run [OF no] show "fst (searchAndCapture env t s) = Inr None" .
  from failure_shot [OF failure_summary [OF no]]
  show "error_shots (since s (snd (searchAndCapture env t s)))
            = [path_join (out_dir env) (errorFilename t)]
          \<and> fs (snd (searchAndCapture env t s))
              = (fs s)(path_join (out_dir env) (errorFilename t) \<mapsto>
                   File (image env (fallback_history (snd (searchAndCapture env t s)))))
          \<and> last (trace (snd (searchAndCapture env t s)))
              = Console Out (ErrorScreenshotSaved (errorFilename t))
        \<or> error_shots (since s (snd (searchAndCapture env t s))) = []
          \<and> fs (snd (searchAndCapture env t s)) = fs s
          \<and> last (trace (snd (searchAndCapture env t s)))
              = Console Out CouldNotTakeErrorScreenshot"
    by (rule conjunct2)
qed

theorem capture_paths_witness:
  "steps_succeed calm (lit ''Boxing'') ready
   \<and> fst (searchAndCapture calm (lit ''Boxing'') ready)
       = Inr (Some (lit ''/home/u/snapshots/boxing_2026-11-03.png''))
   \<and> fs (snd (searchAndCapture calm (lit ''Boxing'') ready))
        (lit ''/home/u/snapshots/boxing_2026-11-03.png'') = Some (File [137, 80, 78, 71])
   \<and> \<not> steps_succeed offline (lit ''Boxing'') ready
   \<and> fst (searchAndCapture offline (lit ''Boxing'') ready) = Inr None
   \<and> fs (snd (searchAndCapture offline (lit ''Boxing'') ready))
       = [lit ''/home/u/snapshots/error_boxing.png'' \<mapsto> File [137, 80, 78, 71]]
   \<and> \<not> steps_succeed blackout (lit ''Boxing'') ready
   \<and> fst (searchAndCapture blackout (lit ''Boxing'') ready) = Inr None
   \<and> fs (snd (searchAndCapture blackout (lit ''Boxing'') ready)) = Map.empty
   \<and> last (trace (snd (searchAndCapture blackout (lit ''Boxing'') ready)))
       = Console Out CouldNotTakeErrorScreenshot"
proof -
  note ok = calm_succeeds [of "lit ''Boxing''"] and no = offline_stops [of "lit ''Boxing''" ready]
    and dark = blackout_stops [of "lit ''Boxing''" ready]
  note w1 = capture_paths [of calm "lit ''Boxing''" ready]
    and w2 = capture_paths [of offline "lit ''Boxing''" ready]
    and w3 = capture_paths [of blackout "lit ''Boxing''" ready]
  from w1 ok have "fst (searchAndCapture calm (lit ''Boxing'') ready)
      = Inr (Some (capture_path calm (lit ''Boxing'') ready))"
    and "fs (snd (searchAndCapture calm (lit ''Boxing'') ready)) (capture_path calm (lit ''Boxing'') ready)
          = Some (File (image calm (capture_history calm (lit ''Boxing'') ready)))"
    by blast+
  then have a: "fst (searchAndCapture calm (lit ''Boxing'') ready)
      = Inr (Some (lit ''/home/u/snapshots/boxing_2026-11-03.png''))"
    and a': "fs (snd (searchAndCapture calm (lit ''Boxing'') ready))
        (lit ''/home/u/snapshots/boxing_2026-11-03.png'')
          = Some (File (image calm (capture_history calm (lit ''Boxing'') ready)))"
    unfolding calm_path .
  have "image calm (capture_history calm (lit ''Boxing'') ready) = [137, 80, 78, 71]"
    by (simp add: calm_def)
  with a' have a'': "fs (snd (searchAndCapture calm (lit ''Boxing'') ready))
        (lit ''/home/u/snapshots/boxing_2026-11-03.png'') = Some (File [137, 80, 78, 71])"
    by simp
  from w2 no have b: "fst (searchAndCapture offline (lit ''Boxing'') ready) = Inr None"
    by blast
  have b': "fs (snd (searchAndCapture offline (lit ''Boxing'') ready))
       = [lit ''/home/u/snapshots/error_boxing.png'' \<mapsto> File [137, 80, 78, 71]]"
    unfolding offline_capture error_boxing_path by (simp add: ready_def)
  from w3 dark have c: "fst (searchAndCapture blackout (lit ''Boxing'') ready) = Inr None"
    by blast
  have c': "fs (snd (searchAndCapture blackout (lit ''Boxing'') ready)) = Map.empty"
    "last (trace (snd (searchAndCapture blackout (lit ''Boxing'') ready)))
       = Console Out CouldNotTakeErrorScreenshot"
    unfolding blackout_capture by (simp_all add: ready_def)
  show ?thesis
    using ok a a'' no b b' dark c c' by (intro conjI)
qed

lemma sanitized_error_name:
  "sanitizedTerm t2 = sanitizedTerm t1 \<Longrightarrow> errorFilename t2 = errorFilename t1"
  by (simp add: errorFilename_def)

lemma loud_quiet: "sanitizedTerm (lit ''ZZQX  nonexistent'') = sanitizedTerm (lit ''Zzqx__nonexistent'')"
  by code_simp

lemma error_zzqx_path:
  "path_join (lit ''/home/u/snapshots'') (errorFilename (lit ''Zzqx__nonexistent''))
     = lit ''/home/u/snapshots/error_zzqx__nonexistent.png''"
  by code_simp

lemma stormy_stops: "\<not> steps_succeed stormy t s"
  by (simp add: steps_succeed_def search_events_def stormy_def calm_def)

lemma later_stops: "\<not> steps_succeed later t s"
  by (simp add: steps_succeed_def search_events_def later_def stormy_def calm_def)

text \<open>
  C10. The name of the error screenshot is \<^verbatim>\<open>error_\<close>, the sanitised term and \<^verbatim>\<open>.png\<close>,
  with no date in it, so terms of the same sanitised name have the same error file. A
  failed attempt leaves the files as they were or puts its error screenshot at that one
  path. And of two failed attempts one after the other for terms of the same sanitised
  name, on any two days, with a page and an environment that does not reject the error
  screenshot, each takes one error screenshot, at the same path; after the first the
  file there holds the first picture, after the second it holds the second picture, and
  the files are otherwise as before the first: the second has overwritten the first.
\<close>

theorem error_screenshot_one_path:
  "errorFilename t1 = lit ''error_'' @ sanitizedTerm t1 @ lit ''.png''
   \<and> (sanitizedTerm t2 = sanitizedTerm t1 \<longrightarrow> errorFilename t2 = errorFilename t1)
   \<and> (\<not> steps_succeed env1 t1 s \<longrightarrow>
        fs (snd (searchAndCapture env1 t1 s)) = fs s
        \<or> fs (snd (searchAndCapture env1 t1 s))
            = (fs s)(path_join (out_dir env1) (errorFilename t1) \<mapsto>
                 File (image env1 (fallback_history (snd (searchAndCapture env1 t1 s))))))
   \<and> (\<not> steps_succeed env1 t1 s
      \<and> \<not> steps_succeed env2 t2 (snd (searchAndCapture env1 t1 s))
      \<and> out_dir env2 = out_dir env1 \<and> sanitizedTerm t2 = sanitizedTerm t1
      \<and> page s \<and> fs s (path_join (out_dir env1) (errorFilename t1)) \<noteq> Some Dir
      \<and> (\<forall>h. respond env1 h (Screenshot (path_join (out_dir env1) (errorFilename t1)) False) = None)
      \<and> (\<forall>h. respond env2 h (Screenshot (path_join (out_dir env1) (errorFilename t1)) False) = None)
      \<longrightarrow>
        error_shots (since s (snd (searchAndCapture env1 t1 s)))
          = [path_join (out_dir env1) (errorFilename t1)]
        \<and> fs (snd (searchAndCapture env1 t1 s))
            = (fs s)(path_join (out_dir env1) (errorFilename t1) \<mapsto>
                 File (image env1 (fallback_history (snd (searchAndCapture env1 t1 s)))))
        \<and> error_shots (since (snd (searchAndCapture env1 t1 s))
                          (snd (searchAndCapture env2 t2 (snd (searchAndCapture env1 t1 s)))))
          = [path_join (out_dir env1) (errorFilename t1)]
        \<and> fs (snd (searchAndCapture env2 t2 (snd (searchAndCapture env1 t1 s))))
            = (fs s)(path_join (out_dir env1) (errorFilename t1) \<mapsto>
                 File (image env2 (fallback_history
                   (snd (searchAndCapture env2 t2 (snd (searchAndCapture env1 t1 s))))))))"
proof (intro conjI impI)
  show "errorFilename t1 = lit ''error_'' @ sanitizedTerm t1 @ lit ''.png''"
    by (simp add: errorFilename_def)
next
  assume "sanitizedTerm t2 = sanitizedTerm t1"
  then show "errorFilename t2 = errorFilename t1"
    by (rule sanitized_error_name)
next
  assume no: "\<not> steps_succeed env1 t1 s"
  from failure_shot [OF failure_summary [OF no]]
  show "fs (snd (searchAndCapture env1 t1 s)) = fs s
        \<or> fs (snd (searchAndCapture env1 t1 s))
            = (fs s)(path_join (out_dir env1) (errorFilename t1) \<mapsto>
                 File (image env1 (fallback_history (snd (searchAndCapture env1 t1 s)))))"
    by blast
next
  assume all: "\<not> steps_succeed env1 t1 s
      \<and> \<not> steps_succeed env2 t2 (snd (searchAndCapture env1 t1 s))
      \<and> out_dir env2 = out_dir env1 \<and> sanitizedTerm t2 = sanitizedTerm t1
      \<and> page s \<and> fs s (path_join (out_dir env1) (errorFilename t1)) \<noteq> Some Dir
      \<and> (\<forall>h. respond env1 h (Screenshot (path_join (out_dir env1) (errorFilename t1)) False) = None)
      \<and> (\<forall>h. respond env2 h (Screenshot (path_join (out_dir env1) (errorFilename t1)) False) = None)"
  define p where "p = path_join (out_dir env1) (errorFilename t1)"
  define s1 where "s1 = snd (searchAndCapture env1 t1 s)"
  define s2 where "s2 = snd (searchAndCapture env2 t2 s1)"
  from all have no1: "\<not> steps_succeed env1 t1 s"
    and no2: "\<not> steps_succeed env2 t2 s1"
    and od: "out_dir env2 = out_dir env1" and sn: "sanitizedTerm t2 = sanitizedTerm t1"
    and pg: "page s" and nd: "fs s p \<noteq> Some Dir"
    and a1: "\<forall>h. respond env1 h (Screenshot p False) = None"
    and a2: "\<forall>h. respond env2 h (Screenshot p False) = None"
    unfolding p_def s1_def by blast+
  have same: "path_join (out_dir env2) (errorFilename t2) = p"
    unfolding p_def od sanitized_error_name [OF sn] by (rule refl)
  from failure_shot_taken [OF failure_summary [OF no1] pg a1 [unfolded p_def] nd [unfolded p_def]]
  have one: "error_shots (since s s1) = [p]"
    "fs s1 = (fs s)(p \<mapsto> File (image env1 (fallback_history s1)))" "page s1"
    by (simp_all add: p_def s1_def)
  from one(2) have nd2: "fs s1 (path_join (out_dir env2) (errorFilename t2)) \<noteq> Some Dir"
    unfolding same by simp
  from failure_shot_taken [OF failure_summary [OF no2] one(3) a2 [folded same] nd2]
  have two: "error_shots (since s1 s2) = [p]"
    "fs s2 = (fs s1)(p \<mapsto> File (image env2 (fallback_history s2)))"
    by (simp_all add: same s2_def)
  from two(2) one(2) have "fs s2 = (fs s)(p \<mapsto> File (image env2 (fallback_history s2)))"
    by simp
  then have three: "fs (snd (searchAndCapture env2 t2 (snd (searchAndCapture env1 t1 s))))
            = (fs s)(path_join (out_dir env1) (errorFilename t1) \<mapsto>
                 File (image env2 (fallback_history
                   (snd (searchAndCapture env2 t2 (snd (searchAndCapture env1 t1 s)))))))"
    unfolding p_def s1_def s2_def .
  from one(1) show "error_shots (since s (snd (searchAndCapture env1 t1 s)))
          = [path_join (out_dir env1) (errorFilename t1)]"
    unfolding p_def s1_def .
  from one(2) show "fs (snd (searchAndCapture env1 t1 s))
            = (fs s)(path_join (out_dir env1) (errorFilename t1) \<mapsto>
                 File (image env1 (fallback_history (snd (searchAndCapture env1 t1 s)))))"
    unfolding p_def s1_def .
  from two(1) show "error_shots (since (snd (searchAndCapture env1 t1 s))
                          (snd (searchAndCapture env2 t2 (snd (searchAndCapture env1 t1 s)))))
          = [path_join (out_dir env1) (errorFilename t1)]"
    unfolding p_def s1_def s2_def .
  from three show "fs (snd (searchAndCapture env2 t2 (snd (searchAndCapture env1 t1 s))))
            = (fs s)(path_join (out_dir env1) (errorFilename t1) \<mapsto>
                 File (image env2 (fallback_history
                   (snd (searchAndCapture env2 t2 (snd (searchAndCapture env1 t1 s)))))))" .
qed

theorem error_screenshot_one_path_witness:
  "\<not> steps_succeed stormy (lit ''Zzqx__nonexistent'') ready
   \<and> \<not> steps_succeed later (lit ''ZZQX  nonexistent'')
         (snd (searchAndCapture stormy (lit ''Zzqx__nonexistent'') ready))
   \<and> sanitizedTerm (lit ''ZZQX  nonexistent'') = sanitizedTerm (lit ''Zzqx__nonexistent'')
   \<and> day (clock later []) \<noteq> day (clock stormy [])
   \<and> fs (snd (searchAndCapture stormy (lit ''Zzqx__nonexistent'') ready))
       = [lit ''/home/u/snapshots/error_zzqx__nonexistent.png'' \<mapsto> File [137, 80, 78, 71]]
   \<and> fs (snd (searchAndCapture later (lit ''ZZQX  nonexistent'')
            (snd (searchAndCapture stormy (lit ''Zzqx__nonexistent'') ready))))
       = [lit ''/home/u/snapshots/error_zzqx__nonexistent.png'' \<mapsto> File [137, 80, 78, 71, 4]]"
proof -
  define p where "p = path_join (out_dir stormy) (errorFilename (lit ''Zzqx__nonexistent''))"
  have od: "out_dir later = out_dir stormy"
    by (simp add: later_def)
  have dd: "day (clock later []) \<noteq> day (clock stormy [])"
    by (simp add: later_def stormy_def calm_def today_def)
  have pg: "page ready" and nd: "fs ready p \<noteq> Some Dir"
    by (simp_all add: ready_def)
  have a1: "\<forall>h. respond stormy h (Screenshot p False) = None"
    by (simp add: stormy_def)
  have a2: "\<forall>h. respond later h (Screenshot p False) = None"
    by (simp add: later_def stormy_def)
  note w = error_screenshot_one_path [of "lit ''Zzqx__nonexistent''" "lit ''ZZQX  nonexistent''"
      stormy ready later, folded p_def]
  from w stormy_stops later_stops od loud_quiet pg nd a1 a2
  have one: "fs (snd (searchAndCapture stormy (lit ''Zzqx__nonexistent'') ready))
            = (fs ready)(p \<mapsto> File (image stormy (fallback_history
                 (snd (searchAndCapture stormy (lit ''Zzqx__nonexistent'') ready)))))"
    and two: "fs (snd (searchAndCapture later (lit ''ZZQX  nonexistent'')
            (snd (searchAndCapture stormy (lit ''Zzqx__nonexistent'') ready))))
            = (fs ready)(p \<mapsto> File (image later (fallback_history
                 (snd (searchAndCapture later (lit ''ZZQX  nonexistent'')
                    (snd (searchAndCapture stormy (lit ''Zzqx__nonexistent'') ready)))))))"
    by blast+
  have p: "p = lit ''/home/u/snapshots/error_zzqx__nonexistent.png''"
  proof -
    have "out_dir stormy = lit ''/home/u/snapshots''"
      by (simp add: stormy_def calm_def)
    then show ?thesis
      unfolding p_def by (simp only: error_zzqx_path)
  qed
  have i1: "image stormy h = [137, 80, 78, 71]" and i2: "image later h = [137, 80, 78, 71, 4]" for h
    by (simp_all add: later_def stormy_def calm_def)
  have e: "fs ready = Map.empty"
    by (simp add: ready_def)
  from one have f1: "fs (snd (searchAndCapture stormy (lit ''Zzqx__nonexistent'') ready))
       = [lit ''/home/u/snapshots/error_zzqx__nonexistent.png'' \<mapsto> File [137, 80, 78, 71]]"
    unfolding p i1 e .
  from two have f2: "fs (snd (searchAndCapture later (lit ''ZZQX  nonexistent'')
            (snd (searchAndCapture stormy (lit ''Zzqx__nonexistent'') ready))))
       = [lit ''/home/u/snapshots/error_zzqx__nonexistent.png'' \<mapsto> File [137, 80, 78, 71, 4]]"
    unfolding p i2 e .
  show ?thesis
    using stormy_stops later_stops loud_quiet dd f1 f2 by (intro conjI)
qed

section \<open>Colliding names\<close>

lemma good_capture_fst:
  assumes "fst (searchAndCapture env t s) = Inr (Some p)"
  shows "p = capture_path env t s
     \<and> fs (snd (searchAndCapture env t s)) = (fs s)(p \<mapsto> File (image env (capture_history env t s)))
     \<and> page (snd (searchAndCapture env t s))"
proof -
  obtain r s' where run: "searchAndCapture env t s = (r, s')"
    by (cases "searchAndCapture env t s")
  with assms have "searchAndCapture env t s = (Inr (Some p), s')" by simp
  from good_capture [OF this] show ?thesis
    unfolding run by simp
qed

lemma same_name:
  "sanitizedTerm t1 = sanitizedTerm t2 \<Longrightarrow> timestamp d1 = timestamp d2
     \<Longrightarrow> filename t1 d1 = filename t2 d2"
  by (simp add: filename_def)

lemma case_collision: "lit ''A'' \<noteq> lit ''a'' \<and> sanitizedTerm (lit ''A'') = sanitizedTerm (lit ''a'')"
  by code_simp

lemma punctuation_collision:
  "lit ''a b'' \<noteq> lit ''a-b'' \<and> sanitizedTerm (lit ''a b'') = sanitizedTerm (lit ''a-b'')"
  by code_simp

text \<open>
  C9. Sanitising is not injective: \<^verbatim>\<open>A\<close> and \<^verbatim>\<open>a\<close>, which differ in case only, and
  \<^verbatim>\<open>a b\<close> and \<^verbatim>\<open>a-b\<close>, which differ in one character outside the letters and digits,
  have the same sanitised name. Two terms of the same sanitised name captured with
  success one after the other on the same day get the same path, and after the second
  capture the file at that path is the picture of the second capture: the first is
  overwritten, and the two captures leave one file.
\<close>

theorem sanitizer_collisions:
  "lit ''A'' \<noteq> lit ''a'' \<and> sanitizedTerm (lit ''A'') = sanitizedTerm (lit ''a'')
   \<and> lit ''a b'' \<noteq> lit ''a-b'' \<and> sanitizedTerm (lit ''a b'') = sanitizedTerm (lit ''a-b'')
   \<and> (sanitizedTerm t1 = sanitizedTerm t2
        \<and> fst (searchAndCapture env t1 s) = Inr (Some p1)
        \<and> fst (searchAndCapture env t2 (snd (searchAndCapture env t1 s))) = Inr (Some p2)
        \<and> timestamp (capture_date env t1 s)
            = timestamp (capture_date env t2 (snd (searchAndCapture env t1 s)))
      \<longrightarrow> p1 = p2
        \<and> fs (snd (searchAndCapture env t2 (snd (searchAndCapture env t1 s))))
            = (fs s)(p1 \<mapsto> File (image env
                 (capture_history env t2 (snd (searchAndCapture env t1 s))))))"
proof -
  have "p1 = p2
        \<and> fs (snd (searchAndCapture env t2 (snd (searchAndCapture env t1 s))))
            = (fs s)(p1 \<mapsto> File (image env
                 (capture_history env t2 (snd (searchAndCapture env t1 s)))))"
    if same: "sanitizedTerm t1 = sanitizedTerm t2"
      and one: "fst (searchAndCapture env t1 s) = Inr (Some p1)"
      and two: "fst (searchAndCapture env t2 (snd (searchAndCapture env t1 s))) = Inr (Some p2)"
      and day: "timestamp (capture_date env t1 s)
            = timestamp (capture_date env t2 (snd (searchAndCapture env t1 s)))"
  proof -
    note g1 = good_capture_fst [OF one] and g2 = good_capture_fst [OF two]
    from g1 g2 have "p1 = p2"
      by (simp add: capture_path_def same_name [OF same day])
    with g1 g2 show ?thesis
      by simp
  qed
  with case_collision punctuation_collision show ?thesis
    by blast
qed

lemma calm_capture_again:
  "fst (searchAndCapture calm t2 (snd (searchAndCapture calm t1 ready)))
     = Inr (Some (capture_path calm t2 (snd (searchAndCapture calm t1 ready))))"
proof (rule capture_runs)
  note g = good_capture_fst [OF calm_capture [of t1]]
  from g show "page (snd (searchAndCapture calm t1 ready))"
    by simp
  show "\<forall>h c. respond calm h c = None"
    by (simp add: calm_def)
  from g show "fs (snd (searchAndCapture calm t1 ready))
      (capture_path calm t2 (snd (searchAndCapture calm t1 ready))) \<noteq> Some Dir"
    by (simp add: ready_def)
qed

theorem sanitizer_collisions_witness:
  "sanitizedTerm (lit ''A'') = sanitizedTerm (lit ''a'')
   \<and> fst (searchAndCapture calm (lit ''A'') ready) = Inr (Some (capture_path calm (lit ''A'') ready))
   \<and> fst (searchAndCapture calm (lit ''a'') (snd (searchAndCapture calm (lit ''A'') ready)))
       = Inr (Some (capture_path calm (lit ''A'') ready))
   \<and> dom (fs (snd (searchAndCapture calm (lit ''a'') (snd (searchAndCapture calm (lit ''A'') ready)))))
       = {capture_path calm (lit ''A'') ready}"
proof -
  have day: "timestamp (capture_date calm (lit ''A'') ready)
      = timestamp (capture_date calm (lit ''a'') (snd (searchAndCapture calm (lit ''A'') ready)))"
    by (simp add: capture_date_def calm_def)
  note c = sanitizer_collisions [of "lit ''A''" "lit ''a''" calm ready
      "capture_path calm (lit ''A'') ready"
      "capture_path calm (lit ''a'') (snd (searchAndCapture calm (lit ''A'') ready))"]
  from c calm_capture [of "lit ''A''"] calm_capture_again [of "lit ''a''" "lit ''A''"] day
  have eq: "capture_path calm (lit ''A'') ready
      = capture_path calm (lit ''a'') (snd (searchAndCapture calm (lit ''A'') ready))"
    and files: "fs (snd (searchAndCapture calm (lit ''a'') (snd (searchAndCapture calm (lit ''A'') ready))))
      = (fs ready)(capture_path calm (lit ''A'') ready \<mapsto> File (image calm
           (capture_history calm (lit ''a'') (snd (searchAndCapture calm (lit ''A'') ready)))))"
    by blast+
  from files have "dom (fs (snd (searchAndCapture calm (lit ''a'')
        (snd (searchAndCapture calm (lit ''A'') ready))))) = {capture_path calm (lit ''A'') ready}"
    by (simp add: ready_def)
  with c calm_capture [of "lit ''A''"] calm_capture_again [of "lit ''a''" "lit ''A''"] eq
  show ?thesis
    by simp
qed

section \<open>What statements add to the history\<close>

lemma searched_append: "searched (xs @ ys) = searched xs @ searched ys"
  by (induction xs rule: searched.induct) simp_all

lemma launched_append: "launched (xs @ ys) = (launched xs \<or> launched ys)"
  by (induction xs rule: launched.induct) auto

lemma mild_list: "list_all mild evs \<Longrightarrow> searched evs = [] \<and> \<not> launched evs"
proof (induction evs)
  case Nil
  then show ?case by simp
next
  case (Cons e es)
  have "searched (e # es) = searched [e] @ searched es" "launched (e # es) = (launched [e] \<or> launched es)"
    using searched_append [of "[e]" es] launched_append [of "[e]" es] by simp_all
  with Cons show ?case by (simp add: mild_def)
qed



lemma plain_mild:
  assumes "plain e"
  shows "mild e"
proof (cases e)
  case (Console ch m)
  with assms show ?thesis
    by (cases m) (simp_all add: plain_def mild_def)
next
  case (Called c r)
  with assms show ?thesis
    by (cases c; cases r) (simp_all add: plain_def mild_def page_step_def)
qed


lemma adds_ret: "adds P (ret x)"
  by (simp add: adds_def ret_eq)

lemma adds_raise: "adds P (\<lambda>s. (Inl e, s))"
  by (simp add: adds_def)

lemma adds_log: "P (Console ch m) \<Longrightarrow> adds P (log ch m)"
  by (simp add: adds_def log_eq)



lemma adds_andThen:
  assumes "adds P m" and "\<And>x. adds P (f x)"
  shows "adds P (andThen m f)"
  unfolding adds_def
proof (intro allI impI)
  fix s r s'
  assume run: "andThen m f s = (r, s')"
  obtain r1 s1 where m: "m s = (r1, s1)" by (cases "m s")
  from assms(1) m obtain evs1 where
    1: "browser s1 = browser s" "trace s1 = trace s @ evs1" "list_all P evs1"
    unfolding adds_def by blast
  show "browser s' = browser s
        \<and> (\<exists>evs. trace s' = trace s @ evs \<and> list_all P evs)"
  proof (cases r1)
    case (Inl e)
    with run m have "s' = s1" by (simp add: andThen_def)
    with 1 show ?thesis by simp
  next
    case (Inr x)
    with run m have "f x s1 = (r, s')" by (simp add: andThen_def)
    with assms(2) [of x] obtain evs2 where
      2: "browser s' = browser s1" "trace s' = trace s1 @ evs2" "list_all P evs2"
      unfolding adds_def by blast
    from 1 2 have "trace s' = trace s @ (evs1 @ evs2)" "list_all P (evs1 @ evs2)"
      by simp_all
    with 1 2 show ?thesis by metis
  qed
qed


lemma adds_block: "list_all (adds P) ms \<Longrightarrow> adds P (block ms)"
  by (induction ms) (simp_all add: adds_ret adds_andThen)

lemma dropWhile_Nil_iff: "(dropWhile P xs = []) = (\<forall>x\<in>set xs. P x)"
  by (induction xs) auto

lemma trim_empty: "(trim line = []) = blank line"
proof
  assume "blank line"
  then have "dropWhile is_ws line = []"
    by (simp add: blank_def list_all_iff dropWhile_Nil_iff)
  then show "trim line = []"
    by (simp add: trim_def del: dropWhile_eq_Nil_conv)
next
  assume e: "trim line = []"
  show "blank line"
  proof (rule ccontr)
    assume "\<not> blank line"
    then have ne: "dropWhile is_ws line \<noteq> []"
      by (simp add: blank_def list_all_iff dropWhile_Nil_iff)
    then have "\<not> is_ws (hd (dropWhile is_ws line))"
      by (rule hd_dropWhile)
    moreover from ne have "hd (dropWhile is_ws line) \<in> set (rev (dropWhile is_ws line))"
      by simp
    ultimately have "dropWhile is_ws (rev (dropWhile is_ws line)) \<noteq> []"
      by (auto simp: dropWhile_Nil_iff)
    with e show False
      by (simp add: trim_def)
  qed
qed

lemma parse_terms_spec: "parse_terms content = spec_terms content"
  by (simp add: parse_terms_def spec_terms_def filter_map comp_def trim_empty)

section \<open>The batch runner\<close>

lemma capture_effect:
  assumes "searchAndCapture env t s = (r, s')"
  shows "(\<exists>x. r = Inr x) \<and> page s' = page s \<and> browser s' = browser s
     \<and> (\<exists>evs. trace s' = trace s @ Console Out (Searching t) # evs \<and> list_all mild evs)"
proof -
  from capture_cases [OF assms] have same: "page s' = page s" "browser s' = browser s"
    by simp_all
  from capture_cases [OF assms] consider
    (good) "r = Inr (Some (capture_path env t s))"
      "trace s' = capture_history env t s
               @ [Called (Screenshot (capture_path env t s) True) None,
                  Console Out (ScreenshotSaved (filename t (capture_date env t s)))]"
  | (bad) e evs tail where "r = Inr None" "list_all plain evs"
      "trace s' = trace s @ Console Out (Searching t) # evs
                 @ Console Err (ErrorProcessing t e) # tail"
      "aftermath env t (fs s) (fs s') tail"
    by blast
  then show ?thesis
  proof cases
    case good
    have "\<exists>evs. trace s' = trace s @ Console Out (Searching t) # evs \<and> list_all mild evs"
      unfolding good(2) capture_history_def search_events_def scroll_events_def
      by (simp add: mild_def)
    with good(1) same show ?thesis by simp
  next
    case bad
    from bad(2) have "list_all mild evs"
      by (simp add: list_all_iff plain_mild)
    moreover from bad(4) have "list_all mild tail"
      unfolding aftermath_def by (auto simp: mild_def)
    ultimately have "list_all mild (evs @ Console Err (ErrorProcessing t e) # tail)"
      by (simp add: mild_def)
    with bad(1,3) same show ?thesis by blast
  qed
qed

lemma adds_print_saved: "adds mild (print_saved r)"
  by (simp add: print_saved_def adds_raise adds_log mild_def split: option.splits)

lemma adds_bullets: "adds mild (block (map (\<lambda>r. log Out (Bullet (f r))) rs))"
  by (rule adds_block) (simp add: list_all_iff adds_log mild_def)

lemma adds_saved: "adds mild (block (map print_saved rs))"
  by (rule adds_block) (simp add: list_all_iff adds_print_saved)

lemma adds_if: "adds P a \<Longrightarrow> adds P b \<Longrightarrow> adds P (if c then a else b)"
  by simp

lemma adds_block_Cons: "adds P m \<Longrightarrow> adds P (block ms) \<Longrightarrow> adds P (block (m # ms))"
  by (simp add: adds_andThen)

lemma adds_block_Nil: "adds P (block [])"
  by (simp add: adds_ret)

lemma adds_print_summary: "adds mild (print_summary results)"
  unfolding print_summary_def Let_def
  by (intro adds_block_Cons adds_block_Nil adds_if adds_log adds_ret adds_saved adds_bullets)
     (simp_all add: mild_def)

lemma loop_searches:
  assumes pause: "\<forall>h. respond env h (WaitForTimeout 2000) = None"
  shows "page s \<Longrightarrow> \<exists>res s' evs. process_loop env terms i results s = (Inr res, s')
      \<and> trace s' = trace s @ evs \<and> searched evs = drop i terms \<and> page s'"
proof (induction "length terms - i" arbitrary: i results s)
  case 0
  then have "process_loop env terms i results s = (Inr results, s)"
    by (subst process_loop.simps) (simp add: ret_def)
  with 0 show ?case by simp
next
  case (Suc n)
  then have i: "i < length terms" by simp
  define s1 where "s1 = emit (Console Out (Processing (i + 1) (length terms) (terms ! i))) s"
  obtain r2 s2 where cap: "searchAndCapture env (terms ! i) s1 = (r2, s2)"
    by (cases "searchAndCapture env (terms ! i) s1")
  from capture_effect [OF cap] obtain x evs2 where
    2: "r2 = Inr x" "page s2 = page s1"
       "trace s2 = trace s1 @ Console Out (Searching (terms ! i)) # evs2" "list_all mild evs2"
    by blast
  have p2: "page s2" using 2(2) Suc.prems by (simp add: s1_def)
  define wait where "wait = (if i < length terms - 1
           then block [log Out WaitingBeforeNext, page_call env (WaitForTimeout 2000)]
           else ret ())"
  obtain s3 evs3 where
    3: "wait s2 = (Inr (), s3)" "trace s3 = trace s2 @ evs3" "searched evs3 = []" "page s3"
  proof (cases "i < length terms - 1")
    case True
    have "wait s2 = (Inr (), emit (Called (WaitForTimeout 2000) None)
                               (emit (Console Out WaitingBeforeNext) s2))"
      using True p2 pause by (simp add: wait_def went_well)
    with p2 that show ?thesis by simp
  next
    case False
    then have "wait s2 = (Inr (), s2)"
      by (simp add: wait_def ret_def)
    with p2 that show ?thesis by simp
  qed
  define results' where
    "results' = results @ [\<lparr>term = terms ! i, success = truthy x, filepath = x\<rparr>]"
  have step: "process_loop env terms i results s = process_loop env terms (i + 1) results' s3"
    using i cap [unfolded s1_def] 2(1) 3(1) [unfolded wait_def]
    by (subst process_loop.simps) (auto simp: andThen_def log_def results'_def)
  from Suc.hyps(2) have "n = length terms - (i + 1)" by simp
  from Suc.hyps(1) [OF this 3(4)] obtain res s' evs where
    rest: "process_loop env terms (i + 1) results' s3 = (Inr res, s')"
      "trace s' = trace s3 @ evs" "searched evs = drop (i + 1) terms" "page s'"
    by blast
  have "trace s' = trace s
      @ (Console Out (Processing (i + 1) (length terms) (terms ! i))
          # Console Out (Searching (terms ! i)) # evs2 @ evs3 @ evs)"
    using rest(2) 3(2) 2(3) by (simp add: s1_def)
  moreover have "searched (Console Out (Processing (i + 1) (length terms) (terms ! i))
          # Console Out (Searching (terms ! i)) # evs2 @ evs3 @ evs) = drop i terms"
    using mild_list [OF 2(4)] 3(3) rest(3) i
    by (simp add: searched_append Cons_nth_drop_Suc)
  ultimately show ?case
    using step rest(1,4) by metis
qed

lemma loop_stops:
  assumes rejected: "\<forall>h. respond env h (WaitForTimeout 2000) \<noteq> None"
    and "page s" and more: "i + 1 < length terms"
  shows "\<exists>e s' evs. process_loop env terms i results s = (Inl e, s')
      \<and> trace s' = trace s @ evs \<and> searched evs = [terms ! i]"
proof -
  from more have i: "i < length terms" "i < length terms - 1" by simp_all
  define s1 where "s1 = emit (Console Out (Processing (i + 1) (length terms) (terms ! i))) s"
  obtain r2 s2 where cap: "searchAndCapture env (terms ! i) s1 = (r2, s2)"
    by (cases "searchAndCapture env (terms ! i) s1")
  from capture_effect [OF cap] obtain x evs2 where
    2: "r2 = Inr x" "page s2 = page s1"
       "trace s2 = trace s1 @ Console Out (Searching (terms ! i)) # evs2" "list_all mild evs2"
    by blast
  have p2: "page s2" using 2(2) assms(2) by (simp add: s1_def)
  define s25 where "s25 = emit (Console Out WaitingBeforeNext) s2"
  from rejected obtain e where e: "respond env (trace s25) (WaitForTimeout 2000) = Some e"
    by fastforce
  define s3 where "s3 = emit (Called (WaitForTimeout 2000) (Some e)) s25"
  have wait: "block [log Out WaitingBeforeNext, page_call env (WaitForTimeout 2000)] s2 = (Inl e, s3)"
    using p2 e by (simp add: andThen_Inl log_eq page_call_Inl s25_def s3_def)
  have "process_loop env terms i results s = (Inl e, s3)"
    using i cap [unfolded s1_def] 2(1) wait
    by (subst process_loop.simps) (auto simp: andThen_def log_def)
  moreover have "trace s3 = trace s
      @ (Console Out (Processing (i + 1) (length terms) (terms ! i))
          # Console Out (Searching (terms ! i)) # evs2
          @ [Console Out WaitingBeforeNext, Called (WaitForTimeout 2000) (Some e)])"
    using 2(3) by (simp add: s1_def s25_def s3_def)
  moreover have "searched (Console Out (Processing (i + 1) (length terms) (terms ! i))
          # Console Out (Searching (terms ! i)) # evs2
          @ [Console Out WaitingBeforeNext, Called (WaitForTimeout 2000) (Some e)]) = [terms ! i]"
    using mild_list [OF 2(4)] by (simp add: searched_append)
  ultimately show ?thesis by metis
qed

lemma batch_run:
  assumes fl: "fs s filePath = Some (File bytes)"
    and read: "respond env (trace s @ [Console Out (ReadingTerms filePath)]) (ReadFile filePath) = None"
    and loop: "process_loop env (parse_terms (utf8 env bytes)) 0 []
        (emit (Console Out (FoundTerms (length (parse_terms (utf8 env bytes)))))
          (emit (Called (ReadFile filePath) None) (emit (Console Out (ReadingTerms filePath)) s)))
        = (r4, s4)"
      "trace s4 = trace s @ [Console Out (ReadingTerms filePath), Called (ReadFile filePath) None,
          Console Out (FoundTerms (length (parse_terms (utf8 env bytes))))] @ evs"
  shows "searched (since s (snd (processTermsFromFile env filePath s))) = searched evs"
proof -
  define s1 where "s1 = emit (Console Out (ReadingTerms filePath)) s"
  have rd: "readFile env filePath s1 = (Inr (utf8 env bytes), emit (Called (ReadFile filePath) None) s1)"
    using fl read by (simp add: readFile_def done_call_def s1_def)
  have pre: "searched [Console Out (ReadingTerms filePath), Called (ReadFile filePath) None,
          Console Out (FoundTerms (length (parse_terms (utf8 env bytes))))] = []"
    by simp
  show ?thesis
  proof (cases r4)
    case (Inl e)
    have "processTermsFromFile env filePath s = (Inr (), emit (Console Err (ErrorReadingTerms e)) s4)"
      using rd [unfolded s1_def] loop(1) Inl
      by (simp add: processTermsFromFile_def tryCatch_def andThen_def log_def)
    then show ?thesis
      using loop(2) pre by (simp add: since_def searched_append)
  next
    case (Inr res)
    obtain r5 s5 where ps: "print_summary res s4 = (r5, s5)"
      by (cases "print_summary res s4")
    with adds_print_summary [of res] obtain evs5 where
      5: "trace s5 = trace s4 @ evs5" "list_all mild evs5"
      unfolding adds_def by blast
    have "\<exists>tail. trace (snd (processTermsFromFile env filePath s)) = trace s5 @ tail \<and> searched tail = []"
    proof (cases r5)
      case (Inl e)
      have "processTermsFromFile env filePath s = (Inr (), emit (Console Err (ErrorReadingTerms e)) s5)"
        using rd [unfolded s1_def] loop(1) Inr ps Inl
        by (simp add: processTermsFromFile_def tryCatch_def andThen_def log_def)
      then show ?thesis by simp
    next
      case (Inr u)
      have "processTermsFromFile env filePath s = (Inr u, s5)"
        using rd [unfolded s1_def] loop(1) \<open>r4 = Inr res\<close> ps Inr
        by (simp add: processTermsFromFile_def tryCatch_def andThen_def log_def)
      then show ?thesis by simp
    qed
    then obtain tail where
      t: "trace (snd (processTermsFromFile env filePath s)) = trace s5 @ tail" "searched tail = []"
      by blast
    show ?thesis
      using t 5 loop(2) pre mild_list [OF 5(2)]
      by (simp add: since_def searched_append)
  qed
qed

lemma batch_searches:
  assumes fl: "fs s filePath = Some (File bytes)"
    and read: "respond env (trace s @ [Console Out (ReadingTerms filePath)]) (ReadFile filePath) = None"
    and pause: "\<forall>h. respond env h (WaitForTimeout 2000) = None"
    and "page s"
  shows "searched (since s (snd (processTermsFromFile env filePath s))) = parse_terms (utf8 env bytes)"
proof -
  define s3 where "s3 = emit (Console Out (FoundTerms (length (parse_terms (utf8 env bytes)))))
          (emit (Called (ReadFile filePath) None) (emit (Console Out (ReadingTerms filePath)) s))"
  have "page s3" using assms(4) by (simp add: s3_def)
  from loop_searches [OF pause this, of "parse_terms (utf8 env bytes)" 0 "[]"]
  obtain res s4 evs where
    4: "process_loop env (parse_terms (utf8 env bytes)) 0 [] s3 = (Inr res, s4)"
       "trace s4 = trace s3 @ evs" "searched evs = parse_terms (utf8 env bytes)"
    by auto
  from 4(2) have "trace s4 = trace s @ [Console Out (ReadingTerms filePath),
          Called (ReadFile filePath) None,
          Console Out (FoundTerms (length (parse_terms (utf8 env bytes))))] @ evs"
    by (simp add: s3_def)
  from batch_run [OF fl read 4(1) [unfolded s3_def] this] 4(3) show ?thesis
    by simp
qed

lemma batch_stops:
  assumes fl: "fs s filePath = Some (File bytes)"
    and read: "respond env (trace s @ [Console Out (ReadingTerms filePath)]) (ReadFile filePath) = None"
    and rejected: "\<forall>h. respond env h (WaitForTimeout 2000) \<noteq> None"
    and "page s" and two: "1 < length (parse_terms (utf8 env bytes))"
  shows "searched (since s (snd (processTermsFromFile env filePath s)))
      = [parse_terms (utf8 env bytes) ! 0]"
proof -
  define s3 where "s3 = emit (Console Out (FoundTerms (length (parse_terms (utf8 env bytes)))))
          (emit (Called (ReadFile filePath) None) (emit (Console Out (ReadingTerms filePath)) s))"
  have "page s3" using assms(4) by (simp add: s3_def)
  from loop_stops [OF rejected this, of 0 "parse_terms (utf8 env bytes)" "[]"] two
  obtain e s4 evs where
    4: "process_loop env (parse_terms (utf8 env bytes)) 0 [] s3 = (Inl e, s4)"
       "trace s4 = trace s3 @ evs" "searched evs = [parse_terms (utf8 env bytes) ! 0]"
    by auto
  from 4(2) have "trace s4 = trace s @ [Console Out (ReadingTerms filePath),
          Called (ReadFile filePath) None,
          Console Out (FoundTerms (length (parse_terms (utf8 env bytes))))] @ evs"
    by (simp add: s3_def)
  from batch_run [OF fl read 4(1) [unfolded s3_def] this] 4(3) show ?thesis
    by simp
qed

lemma two_lines: "spec_terms (map of_nat [97, 10, 10, 98]) = [lit ''a'', lit ''b'']"
  by code_simp

lemma desk_file: "fs desk (lit ''terms.txt'') = Some (File [97, 10, 10, 98])" "page desk"
  by (simp_all add: desk_def ready_def)

text \<open>
  C3, as amended. When the file is read and no pause between two terms is rejected
  (the page is open), the terms the batch runner searches for, in order, are the
  nonblank lines of the file, trimmed: the same number, the same order, duplicates kept,
  blank lines giving no term.
\<close>

theorem batch_terms:
  assumes "fs s filePath = Some (File bytes)"
    and "respond env (trace s @ [Console Out (ReadingTerms filePath)]) (ReadFile filePath) = None"
    and "\<forall>h. respond env h (WaitForTimeout 2000) = None"
    and "page s"
  shows "searched (since s (snd (processTermsFromFile env filePath s))) = spec_terms (utf8 env bytes)
     \<and> length (searched (since s (snd (processTermsFromFile env filePath s))))
         = length (filter (\<lambda>line. \<not> blank line) (js_split 10 (utf8 env bytes)))"
  using batch_searches [OF assms]
  by (simp add: parse_terms_spec) (simp add: spec_terms_def)

theorem batch_terms_witness:
  "fs desk (lit ''terms.txt'') = Some (File [97, 10, 10, 98])
   \<and> respond calm (trace desk @ [Console Out (ReadingTerms (lit ''terms.txt''))])
        (ReadFile (lit ''terms.txt'')) = None
   \<and> (\<forall>h. respond calm h (WaitForTimeout 2000) = None)
   \<and> page desk
   \<and> searched (since desk (snd (processTermsFromFile calm (lit ''terms.txt'') desk)))
       = [lit ''a'', lit ''b'']"
proof -
  have r: "respond calm (trace desk @ [Console Out (ReadingTerms (lit ''terms.txt''))])
        (ReadFile (lit ''terms.txt'')) = None"
    and p: "\<forall>h. respond calm h (WaitForTimeout 2000) = None"
    and u: "utf8 calm [97, 10, 10, 98] = map of_nat [97, 10, 10, 98]"
    by (simp_all add: calm_def)
  from batch_terms [OF desk_file(1) r p desk_file(2)]
  have "searched (since desk (snd (processTermsFromFile calm (lit ''terms.txt'') desk)))
       = [lit ''a'', lit ''b'']"
    unfolding u two_lines by simp
  with desk_file r p show ?thesis
    by simp
qed

text \<open>
  The claim as it was written fails when a pause is rejected (the page was closed, say):
  of the two terms of the file \<^verbatim>\<open>a\<close>, blank, \<^verbatim>\<open>b\<close> only the first is searched for.
\<close>

theorem batch_stops_counterexample:
  "searched (since desk (snd (processTermsFromFile impatient (lit ''terms.txt'') desk))) = [lit ''a'']
   \<and> spec_terms (utf8 impatient [97, 10, 10, 98]) = [lit ''a'', lit ''b'']"
proof -
  have r: "respond impatient (trace desk @ [Console Out (ReadingTerms (lit ''terms.txt''))])
        (ReadFile (lit ''terms.txt'')) = None"
    and p: "\<forall>h. respond impatient h (WaitForTimeout 2000) \<noteq> None"
    and u: "utf8 impatient [97, 10, 10, 98] = map of_nat [97, 10, 10, 98]"
    by (simp_all add: impatient_def calm_def)
  have t: "parse_terms (utf8 impatient [97, 10, 10, 98]) = [lit ''a'', lit ''b'']"
    unfolding u parse_terms_spec by (rule two_lines)
  have two: "1 < length (parse_terms (utf8 impatient [97, 10, 10, 98]))"
    unfolding t by simp
  from batch_stops [OF desk_file(1) r p desk_file(2) two]
  have "searched (since desk (snd (processTermsFromFile impatient (lit ''terms.txt'') desk)))
      = [lit ''a'']"
    unfolding t by simp
  moreover have "spec_terms (utf8 impatient [97, 10, 10, 98]) = [lit ''a'', lit ''b'']"
    unfolding u by (rule two_lines)
  ultimately show ?thesis ..
qed

section \<open>Closing the browser\<close>






















section \<open>The output directory\<close>

lemma initialize_calm:
  assumes "files (out_dir calm) = Some (File bytes)"
  shows "initialize calm (start files) =
     (Inr (), \<lparr>trace = [Console Out Launching, Called (Launch False 300) None,
                        Called NewContext None, Called NewPage None,
                        Called (Access (out_dir calm)) None],
              fs = files, browser = True, browserContext = True, page = True\<rparr>)"
proof -
  have r: "respond calm h c = None" for h c
    by (simp add: calm_def)
  show ?thesis
    using assms
    by (simp add: initialize_def andThen_def tryCatch_def ret_def log_def external_def
        done_call_def set_browser_def set_context_def set_page_def access_def emit_def
        start_def r)
qed

text \<open>
  C7 at the input where it fails. A regular file named \<^verbatim>\<open>snapshots\<close> is in the way:
  \<^verbatim>\<open>access\<close> succeeds on it, so \<^verbatim>\<open>mkdir\<close> is not called, \<^verbatim>\<open>initialize\<close> completes, and
  the output path is still a file and not a directory.
\<close>

theorem initialize_leaves_file:
  "fst (initialize calm (start cluttered)) = Inr ()
   \<and> fs (snd (initialize calm (start cluttered))) (out_dir calm) = Some (File [])
   \<and> calls_of (trace (snd (initialize calm (start cluttered)))) =
       [Launch False 300, NewContext, NewPage, Access (out_dir calm)]"
proof -
  have "cluttered (out_dir calm) = Some (File [])"
    by (simp add: cluttered_def)
  from initialize_calm [of cluttered "[]", OF this] show ?thesis
    by (simp add: cluttered_def)
qed

lemma access_Inr: "(access p s = (Inr u, s')) = (fs s p \<noteq> None \<and> s' = emit (Called (Access p) None) s)"
  by (auto simp: access_def failed_def done_call_def split: option.splits)

lemma access_Inl:
  "(access p s = (Inl e, s')) = (fs s p = None \<and> e = ENOENT \<and> s' = emit (Called (Access p) (Some ENOENT)) s)"
  by (auto simp: access_def failed_def done_call_def split: option.splits)

lemma mkdir_Inr:
  "(mkdir env p s = (Inr u, s')) =
     (respond env (trace s) (Mkdir p) = None
      \<and> (fs s p = Some Dir \<and> s' = emit (Called (Mkdir p) None) s
         \<or> fs s p = None \<and> s' = emit (Called (Mkdir p) None) (s\<lparr>fs := (fs s)(p \<mapsto> Dir)\<rparr>)))"
  by (auto simp: mkdir_def failed_def done_call_def split: option.splits entry.splits)

lemma set_field_eq:
  "(set_browser b s = (r, s')) = (r = Inr () \<and> s' = s\<lparr>browser := b\<rparr>)"
  "(set_context b s = (r, s')) = (r = Inr () \<and> s' = s\<lparr>browserContext := b\<rparr>)"
  "(set_page b s = (r, s')) = (r = Inr () \<and> s' = s\<lparr>page := b\<rparr>)"
  by (auto simp: set_browser_def set_context_def set_page_def)

text \<open>
  The part of C7 that holds: when the output path is absent or is a directory already,
  a completed \<^verbatim>\<open>initialize\<close> leaves a directory there, page and browser set, and \<^verbatim>\<open>mkdir\<close>
  is called exactly when the path was absent.
\<close>

lemma initialize_directory:
  assumes "initialize env s = (Inr (), s')" and "\<forall>bytes. fs s (out_dir env) \<noteq> Some (File bytes)"
  shows "fs s' (out_dir env) = Some Dir \<and> page s' \<and> browser s'
     \<and> (Mkdir (out_dir env) \<in> set (calls_of (since s s'))) = (fs s (out_dir env) = None)"
proof -
  have cases: "fs s (out_dir env) = None \<or> fs s (out_dir env) = Some Dir"
    using assms(2) by (cases "fs s (out_dir env)") (auto intro: entry.exhaust)
  from assms(1) cases show ?thesis
    unfolding initialize_def since_def
    by (auto simp: went_well andThen_Inl external_Inr access_Inr access_Inl mkdir_Inr set_field_eq)
qed

end
